theory Spec2Isabelle
  imports Complex_Main "HOL-Library.AList" "HOL-Library.List_Lexorder" "HOL-Library.Char_ord"
begin

section \<open>The shared application data\<close>

text \<open>
  A JavaScript object with string keys is an association list: \<open>Object.keys\<close> lists the
  keys in insertion order, an assignment to an existing key keeps its place, an
  assignment to a new key appends it, \<open>delete\<close> removes it. (Date keys such as
  \<open>2024-01-03\<close> are not integer-like, so no key is reordered.)

  A value stored under a date of \<open>data.attendance\<close> is either an object
  \<open>{lunch, dinner}\<close> with two booleans, or \<open>undefined\<close> (a key can hold
  \<open>undefined\<close> after \<open>attendance[date] = newValue\<close> with a missing \<open>newValue\<close>).
  Each date owns its day object, as after every load from storage.
\<close>

datatype meal = Lunch | Dinner

datatype attval = Undefined | Meals bool bool

datatype summary = Summary nat nat nat string

text \<open>The field \<open>notes\<close> is named \<open>noteMap\<close> here.\<close>

record app_data =
  attendance :: "(string \<times> attval) list"
  noteMap :: "(string \<times> string) list"
  summaries :: "(string \<times> summary) list"

fun truthy :: "attval option \<Rightarrow> bool" where
  "truthy (Some (Meals l d)) = True"
| "truthy _ = False"

fun getMeal :: "meal \<Rightarrow> attval \<Rightarrow> bool" where
  "getMeal Lunch (Meals l d) = l"
| "getMeal Dinner (Meals l d) = d"
| "getMeal m Undefined = False"

fun setMeal :: "meal \<Rightarrow> bool \<Rightarrow> attval \<Rightarrow> attval" where
  "setMeal Lunch b (Meals l d) = Meals b d"
| "setMeal Dinner b (Meals l d) = Meals l b"
| "setMeal m b Undefined = Undefined"

text \<open>\<open>if (notes[date])\<close>: a missing note and the empty string are both falsy.\<close>

fun truthyNote :: "string option \<Rightarrow> bool" where
  "truthyNote (Some n) = (n \<noteq> [])"
| "truthyNote None = False"

section \<open>The undo/redo manager\<close>

text \<open>
  The seven action types the manager dispatches on, with the fields of \<open>action.data\<close>
  that undo and redo read; \<open>Other\<close> is any other type (the exporter records
  \<open>export\<close>). A bulk-edit change is \<open>{date, oldValue, newValue}\<close>; a value that is
  missing is \<open>Undefined\<close>. In \<open>EditNote date oldNote newNote\<close> the empty string stands
  for every falsy \<open>oldNote\<close>.
\<close>

datatype change = Change string attval attval

datatype action =
    MarkAttendance string meal
  | UnmarkAttendance string meal
  | AddNote string string
  | EditNote string string string
  | DeleteNote string string
  | BulkEdit "change list"
  | DeleteData "(string \<times> attval) list" "(string \<times> string) list" "(string \<times> summary) list"
  | Other string

text \<open>
  A history entry is the action with the \<open>timestamp\<close> and \<open>id\<close> that \<open>recordAction\<close>
  adds; \<open>Date.now()\<close> and the random id come from the environment, as the pair
  given to \<open>recordAction\<close>.
\<close>

record entry =
  eaction :: action
  timestamp :: nat
  eid :: string

record undo_manager =
  history :: "entry list"
  currentIndex :: int

record world =
  appData :: app_data
  undoManager :: undo_manager

definition maxHistorySize :: nat where
  "maxHistorySize = 50"

definition constructor :: undo_manager where
  "constructor = \<lparr>history = [], currentIndex = - 1\<rparr>"

text \<open>\<open>xs.slice(0, e)\<close>: a negative end counts from the end of the array.\<close>

definition slice0 :: "'a list \<Rightarrow> int \<Rightarrow> 'a list" where
  "slice0 xs e = (if e < 0 then take (nat (int (length xs) + e)) xs else take (nat e) xs)"

definition recordAction :: "nat \<times> string \<Rightarrow> action \<Rightarrow> undo_manager \<Rightarrow> undo_manager" where
  "recordAction stamp a m =
     (let h = slice0 (history m) (currentIndex m + 1)
                @ [\<lparr>eaction = a, timestamp = fst stamp, eid = snd stamp\<rparr>]
      in if length h > maxHistorySize
         then m\<lparr>history := tl h\<rparr>
         else m\<lparr>history := h, currentIndex := currentIndex m + 1\<rparr>)"

definition canUndo :: "undo_manager \<Rightarrow> bool" where
  "canUndo m = (currentIndex m \<ge> 0)"

definition canRedo :: "undo_manager \<Rightarrow> bool" where
  "canRedo m = (currentIndex m < int (length (history m)) - 1)"

definition clearHistory :: "undo_manager \<Rightarrow> undo_manager" where
  "clearHistory m = m\<lparr>history := [], currentIndex := - 1\<rparr>"

subsection \<open>The paired inverse operations\<close>

definition undoMarkAttendance :: "string \<Rightarrow> meal \<Rightarrow> app_data \<Rightarrow> app_data" where
  "undoMarkAttendance date mealType d =
     (case map_of (attendance d) date of
        Some (Meals l n) \<Rightarrow>
          d\<lparr>attendance := AList.update date (setMeal mealType False (Meals l n)) (attendance d)\<rparr>
      | _ \<Rightarrow> d)"

definition redoMarkAttendance :: "string \<Rightarrow> meal \<Rightarrow> app_data \<Rightarrow> app_data" where
  "redoMarkAttendance date mealType d =
     (let day = (case map_of (attendance d) date of
                   Some (Meals l n) \<Rightarrow> Meals l n
                 | _ \<Rightarrow> Meals False False)
      in d\<lparr>attendance := AList.update date (setMeal mealType True day) (attendance d)\<rparr>)"

definition undoUnmarkAttendance :: "string \<Rightarrow> meal \<Rightarrow> app_data \<Rightarrow> app_data" where
  "undoUnmarkAttendance date mealType d =
     (let day = (case map_of (attendance d) date of
                   Some (Meals l n) \<Rightarrow> Meals l n
                 | _ \<Rightarrow> Meals False False)
      in d\<lparr>attendance := AList.update date (setMeal mealType True day) (attendance d)\<rparr>)"

definition redoUnmarkAttendance :: "string \<Rightarrow> meal \<Rightarrow> app_data \<Rightarrow> app_data" where
  "redoUnmarkAttendance date mealType d =
     (case map_of (attendance d) date of
        Some (Meals l n) \<Rightarrow>
          d\<lparr>attendance := AList.update date (setMeal mealType False (Meals l n)) (attendance d)\<rparr>
      | _ \<Rightarrow> d)"

definition undoAddNote :: "string \<Rightarrow> app_data \<Rightarrow> app_data" where
  "undoAddNote date d =
     (if truthyNote (map_of (noteMap d) date)
      then d\<lparr>noteMap := AList.delete date (noteMap d)\<rparr> else d)"

definition redoAddNote :: "string \<Rightarrow> string \<Rightarrow> app_data \<Rightarrow> app_data" where
  "redoAddNote date note d = d\<lparr>noteMap := AList.update date note (noteMap d)\<rparr>"

definition undoEditNote :: "string \<Rightarrow> string \<Rightarrow> app_data \<Rightarrow> app_data" where
  "undoEditNote date oldNote d =
     (if oldNote \<noteq> []
      then d\<lparr>noteMap := AList.update date oldNote (noteMap d)\<rparr>
      else d\<lparr>noteMap := AList.delete date (noteMap d)\<rparr>)"

definition redoEditNote :: "string \<Rightarrow> string \<Rightarrow> app_data \<Rightarrow> app_data" where
  "redoEditNote date newNote d = d\<lparr>noteMap := AList.update date newNote (noteMap d)\<rparr>"

definition undoDeleteNote :: "string \<Rightarrow> string \<Rightarrow> app_data \<Rightarrow> app_data" where
  "undoDeleteNote date note d = d\<lparr>noteMap := AList.update date note (noteMap d)\<rparr>"

definition redoDeleteNote :: "string \<Rightarrow> app_data \<Rightarrow> app_data" where
  "redoDeleteNote date d =
     (if truthyNote (map_of (noteMap d) date)
      then d\<lparr>noteMap := AList.delete date (noteMap d)\<rparr> else d)"

fun undoBulkEdit :: "change list \<Rightarrow> app_data \<Rightarrow> app_data" where
  "undoBulkEdit [] d = d"
| "undoBulkEdit (Change date oldValue newValue # changes) d =
     undoBulkEdit changes
       (case oldValue of
          Meals l n \<Rightarrow> d\<lparr>attendance := AList.update date oldValue (attendance d)\<rparr>
        | Undefined \<Rightarrow> d\<lparr>attendance := AList.delete date (attendance d)\<rparr>)"

fun redoBulkEdit :: "change list \<Rightarrow> app_data \<Rightarrow> app_data" where
  "redoBulkEdit [] d = d"
| "redoBulkEdit (Change date oldValue newValue # changes) d =
     redoBulkEdit changes (d\<lparr>attendance := AList.update date newValue (attendance d)\<rparr>)"

definition undoDeleteData ::
  "(string \<times> attval) list \<Rightarrow> (string \<times> string) list \<Rightarrow> (string \<times> summary) list
     \<Rightarrow> app_data \<Rightarrow> app_data" where
  "undoDeleteData att nts sms d = d\<lparr>attendance := att, noteMap := nts, summaries := sms\<rparr>"

definition redoDeleteData :: "app_data \<Rightarrow> app_data" where
  "redoDeleteData d = d\<lparr>attendance := [], noteMap := [], summaries := []\<rparr>"

fun executeUndo :: "action \<Rightarrow> app_data \<Rightarrow> app_data" where
  "executeUndo (MarkAttendance date mealType) d = undoMarkAttendance date mealType d"
| "executeUndo (UnmarkAttendance date mealType) d = undoUnmarkAttendance date mealType d"
| "executeUndo (AddNote date note) d = undoAddNote date d"
| "executeUndo (EditNote date oldNote newNote) d = undoEditNote date oldNote d"
| "executeUndo (DeleteNote date note) d = undoDeleteNote date note d"
| "executeUndo (BulkEdit changes) d = undoBulkEdit changes d"
| "executeUndo (DeleteData att nts sms) d = undoDeleteData att nts sms d"
| "executeUndo (Other t) d = d"

fun executeRedo :: "action \<Rightarrow> app_data \<Rightarrow> app_data" where
  "executeRedo (MarkAttendance date mealType) d = redoMarkAttendance date mealType d"
| "executeRedo (UnmarkAttendance date mealType) d = redoUnmarkAttendance date mealType d"
| "executeRedo (AddNote date note) d = redoAddNote date note d"
| "executeRedo (EditNote date oldNote newNote) d = redoEditNote date newNote d"
| "executeRedo (DeleteNote date note) d = redoDeleteNote date d"
| "executeRedo (BulkEdit changes) d = redoBulkEdit changes d"
| "executeRedo (DeleteData att nts sms) d = redoDeleteData d"
| "executeRedo (Other t) d = d"

subsection \<open>undo and redo\<close>

text \<open>
  A call either returns its boolean or throws: \<open>history[currentIndex]\<close> outside the
  array is \<open>undefined\<close>, and reading \<open>action.type\<close> of it is a TypeError, raised after
  \<open>currentIndex\<close> was already moved. The state after the call is returned in both cases.
\<close>

datatype 'a outcome = Returns 'a | Throws

definition undo :: "world \<Rightarrow> bool outcome \<times> world" where
  "undo w =
     (let m = undoManager w; c = currentIndex m in
      if \<not> canUndo m then (Returns False, w)
      else if nat c < length (history m)
      then (Returns True,
            \<lparr>appData = executeUndo (eaction (history m ! nat c)) (appData w),
             undoManager = m\<lparr>currentIndex := c - 1\<rparr>\<rparr>)
      else (Throws, w\<lparr>undoManager := m\<lparr>currentIndex := c - 1\<rparr>\<rparr>))"

definition redo :: "world \<Rightarrow> bool outcome \<times> world" where
  "redo w =
     (let m = undoManager w; c = currentIndex m + 1 in
      if \<not> canRedo m then (Returns False, w)
      else if 0 \<le> c
      then (Returns True,
            \<lparr>appData = executeRedo (eaction (history m ! nat c)) (appData w),
             undoManager = m\<lparr>currentIndex := c\<rparr>\<rparr>)
      else (Throws, w\<lparr>undoManager := m\<lparr>currentIndex := c\<rparr>\<rparr>))"

text \<open>\<open>k\<close> calls in a row; a call that throws leaves its state to the next call.\<close>

fun undoN :: "nat \<Rightarrow> world \<Rightarrow> world" where
  "undoN 0 w = w"
| "undoN (Suc k) w = undoN k (snd (undo w))"

fun redoN :: "nat \<Rightarrow> world \<Rightarrow> world" where
  "redoN 0 w = w"
| "redoN (Suc k) w = redoN k (snd (redo w))"

text \<open>Recording a list of actions, one \<open>recordAction\<close> call each.\<close>

fun recordAll :: "((nat \<times> string) \<times> action) list \<Rightarrow> undo_manager \<Rightarrow> undo_manager" where
  "recordAll [] m = m"
| "recordAll ((stamp, a) # as) m = recordAll as (recordAction stamp a m)"

subsection \<open>Persisting and loading the history\<close>

text \<open>
  What \<open>localStorage.getItem('messtrack_undo_history')\<close> holds: nothing (or the
  empty string), a string on which the \<open>try\<close> block throws, or an object whose
  \<open>history\<close> and \<open>currentIndex\<close> fields may be missing.
\<close>

datatype saved = NoItem | Corrupt | Saved "entry list option" "int option"

definition saveHistory :: "undo_manager \<Rightarrow> saved" where
  "saveHistory m = Saved (Some (history m)) (Some (currentIndex m))"

fun loadHistory :: "saved \<Rightarrow> undo_manager \<Rightarrow> undo_manager" where
  "loadHistory NoItem m = m"
| "loadHistory Corrupt m = m\<lparr>history := [], currentIndex := - 1\<rparr>"
| "loadHistory (Saved h c) m =
     m\<lparr>history := (case h of Some es \<Rightarrow> es | None \<Rightarrow> []),
       currentIndex := (case c of Some i \<Rightarrow> (if i = 0 then - 1 else i) | None \<Rightarrow> - 1)\<rparr>"

subsection \<open>Reachable states\<close>

inductive reachable :: "world \<Rightarrow> bool" where
  fresh: "reachable \<lparr>appData = d, undoManager = constructor\<rparr>"
| recorded: "reachable w \<Longrightarrow> reachable (w\<lparr>undoManager := recordAction stamp a (undoManager w)\<rparr>)"
| undone: "reachable w \<Longrightarrow> reachable (snd (undo w))"
| redone: "reachable w \<Longrightarrow> reachable (snd (redo w))"
| cleared: "reachable w \<Longrightarrow> reachable (w\<lparr>undoManager := clearHistory (undoManager w)\<rparr>)"
| edited: "reachable w \<Longrightarrow> reachable (w\<lparr>appData := d\<rparr>)"

text \<open>
  The cursor stays between \<open>-1\<close> and the last index, and the array within its
  capacity.
\<close>

definition wellFormed :: "undo_manager \<Rightarrow> bool" where
  "wellFormed m =
     (- 1 \<le> currentIndex m \<and> currentIndex m < int (length (history m))
      \<and> length (history m) \<le> maxHistorySize)"

definition fiftyExports :: "((nat \<times> string) \<times> action) list" where
  "fiftyExports = replicate 50 ((0, ''x''), Other ''export'')"

subsection \<open>The attendance toggle that records its action\<close>

text \<open>
  \<open>MessTrack.markAttendance(type)\<close> for the date \<open>today\<close> (the attendance
  manager's toggle is the same code with the date as an argument): the day's record is
  created when it is missing, the meal is flipped, and the flip is recorded as
  \<open>mark_attendance\<close> or \<open>unmark_attendance\<close>. Saving and rendering are left out.
\<close>

definition markAttendance :: "nat \<times> string \<Rightarrow> meal \<Rightarrow> string \<Rightarrow> world \<Rightarrow> world" where
  "markAttendance stamp type today w =
     (let att = attendance (appData w);
          att1 = (if truthy (map_of att today) then att
                  else AList.update today (Meals False False) att);
          day = (case map_of att1 today of
                   Some (Meals l n) \<Rightarrow> Meals l n
                 | _ \<Rightarrow> Meals False False);
          previousState = getMeal type day;
          att2 = AList.update today (setMeal type (\<not> previousState) day) att1;
          actionType = (if \<not> previousState then MarkAttendance else UnmarkAttendance)
      in \<lparr>appData = (appData w)\<lparr>attendance := att2\<rparr>,
          undoManager = recordAction stamp (actionType today type) (undoManager w)\<rparr>)"

fun markAll :: "((nat \<times> string) \<times> meal \<times> string) list \<Rightarrow> world \<Rightarrow> world" where
  "markAll [] w = w"
| "markAll ((stamp, type, today) # ts) w = markAll ts (markAttendance stamp type today w)"

text \<open>
  A recorded toggle describes the data when the day's record exists and the meal has
  the value the toggle gave it.
\<close>

fun toggleOk :: "action \<Rightarrow> app_data \<Rightarrow> bool" where
  "toggleOk (MarkAttendance date mealType) d =
     (case map_of (attendance d) date of
        Some (Meals l n) \<Rightarrow> getMeal mealType (Meals l n) | _ \<Rightarrow> False)"
| "toggleOk (UnmarkAttendance date mealType) d =
     (case map_of (attendance d) date of
        Some (Meals l n) \<Rightarrow> \<not> getMeal mealType (Meals l n) | _ \<Rightarrow> False)"
| "toggleOk a d = False"

fun chainOk :: "action list \<Rightarrow> app_data \<Rightarrow> bool" where
  "chainOk [] d = True"
| "chainOk (a # as) d = (toggleOk a d \<and> chainOk as (executeUndo a d))"

text \<open>The actions at and below the cursor, the one at the cursor first.\<close>

definition topActs :: "undo_manager \<Rightarrow> action list" where
  "topActs m = map eaction (rev (take (nat (currentIndex m + 1)) (history m)))"

definition agreesOn :: "app_data \<Rightarrow> app_data \<Rightarrow> bool" where
  "agreesOn d x =
     (\<forall>k l n. map_of (attendance d) k = Some (Meals l n)
        \<longrightarrow> map_of (attendance x) k = Some (Meals l n))"

section \<open>Dates and their strings\<close>

text \<open>
  The local calendar date of a JavaScript \<open>Date\<close>: \<open>getFullYear()\<close>, \<open>getMonth()\<close>
  (0 to 11) and \<open>getDate()\<close> (1 to 31). The clock is an input of every function that
  reads \<open>new Date()\<close>.
\<close>

record jsdate =
  dyear :: int
  dmonth :: nat
  dday :: nat

function showNat :: "nat \<Rightarrow> string" where
  "showNat n =
     (if n < 10 then [''0123456789'' ! n]
      else showNat (n div 10) @ [''0123456789'' ! (n mod 10)])"
  by pat_completeness auto
termination
  by (relation "measure id") auto

declare showNat.simps [simp del]

definition showInt :: "int \<Rightarrow> string" where
  "showInt i = (if i < 0 then CHR ''-'' # showNat (nat (- i)) else showNat (nat i))"

definition padStart2 :: "string \<Rightarrow> string" where
  "padStart2 s = (if length s < 2 then replicate (2 - length s) CHR ''0'' @ s else s)"

definition monthKeyOf :: "jsdate \<Rightarrow> string" where
  "monthKeyOf t = showInt (dyear t) @ ''-'' @ padStart2 (showNat (dmonth t + 1))"

definition getTodayString :: "jsdate \<Rightarrow> string" where
  "getTodayString t = monthKeyOf t @ ''-'' @ padStart2 (showNat (dday t))"

definition isLeap :: "int \<Rightarrow> bool" where
  "isLeap y = ((y mod 4 = 0 \<and> y mod 100 \<noteq> 0) \<or> y mod 400 = 0)"

definition daysInMonth :: "int \<Rightarrow> nat \<Rightarrow> nat" where
  "daysInMonth y m =
     (if m = 1 then (if isLeap y then 29 else 28)
      else if m = 3 \<or> m = 5 \<or> m = 8 \<or> m = 10 then 30 else 31)"

text \<open>
  \<open>date.setMonth(m)\<close> keeps the day of the month and normalises: a month outside 0 to
  11 moves the year, and a day past the end of the target month runs over into the next
  month (31 March set to month 1 is 2 or 3 March).
\<close>

definition setMonth :: "jsdate \<Rightarrow> int \<Rightarrow> jsdate" where
  "setMonth t mi =
     (let y = dyear t + mi div 12; m = nat (mi mod 12); dim = daysInMonth y m in
      if dday t \<le> dim then \<lparr>dyear = y, dmonth = m, dday = dday t\<rparr>
      else if m = 11 then \<lparr>dyear = y + 1, dmonth = 0, dday = dday t - dim\<rparr>
      else \<lparr>dyear = y, dmonth = m + 1, dday = dday t - dim\<rparr>)"

definition startsWith :: "string \<Rightarrow> string \<Rightarrow> bool" where
  "startsWith s p = (take (length p) s = p)"

section \<open>The statistics calculator\<close>

text \<open>Reading \<open>day.lunch\<close> of a day that is \<open>undefined\<close> throws a TypeError.\<close>

datatype error = TypeError

text \<open>
  \<open>[...dates].sort()\<close> orders strings by their code units, for the ASCII strings of
  dates the lexicographic order of \<open>sort\<close> on \<open>string\<close>.
\<close>

fun currentStreakLoop :: "(string \<times> attval) list \<Rightarrow> string list \<Rightarrow> nat \<Rightarrow> error + nat" where
  "currentStreakLoop att [] streak = Inr streak"
| "currentStreakLoop att (date # rest) streak =
     (case map_of att date of
        Some (Meals l d) \<Rightarrow>
          (if l \<or> d then currentStreakLoop att rest (streak + 1) else Inr streak)
      | _ \<Rightarrow> Inl TypeError)"

definition calculateCurrentStreak :: "string list \<Rightarrow> (string \<times> attval) list \<Rightarrow> error + nat" where
  "calculateCurrentStreak dates att = currentStreakLoop att (rev (sort dates)) 0"

fun longestStreakLoop ::
  "(string \<times> attval) list \<Rightarrow> string list \<Rightarrow> nat \<Rightarrow> nat \<Rightarrow> error + nat" where
  "longestStreakLoop att [] maxStreak currentStreak = Inr maxStreak"
| "longestStreakLoop att (date # rest) maxStreak currentStreak =
     (case map_of att date of
        Some (Meals l d) \<Rightarrow>
          (if l \<or> d
           then longestStreakLoop att rest (max maxStreak (currentStreak + 1)) (currentStreak + 1)
           else longestStreakLoop att rest maxStreak 0)
      | _ \<Rightarrow> Inl TypeError)"

definition calculateLongestStreak :: "string list \<Rightarrow> (string \<times> attval) list \<Rightarrow> error + nat" where
  "calculateLongestStreak dates att = longestStreakLoop att (sort dates) 0 0"

text \<open>
  \<open>cond ? x.toFixed(1) : 0\<close> is the number \<open>0\<close> or a string. \<open>toFixed1 a b\<close> is
  \<open>((a / b) * 100).toFixed(1)\<close>: the decimal with one fraction digit nearest to
  \<open>100 a / b\<close>, the larger one at a tie. (Computed exactly here; with at most 31 days
  in a month the double that JavaScript rounds is exact at every tie.)
\<close>

datatype percent = Number0 | Fixed string

definition toFixed1 :: "nat \<Rightarrow> nat \<Rightarrow> string" where
  "toFixed1 a b =
     (let n = (2000 * a + b) div (2 * b) in showNat (n div 10) @ ''.'' @ showNat (n mod 10))"

datatype comparison = NotAvailable | Available int int

text \<open>
  The fields of the \<open>stats\<close> object that are counts, percentages and streaks, and of
  \<open>comparisonWithLastMonth\<close> its \<open>available\<close>, \<open>lunchDiff\<close> and \<open>dinnerDiff\<close>. The
  month name, the weekday, week and day breakdowns and the predictions are left out:
  they read the same days after the tally and change none of these fields.
\<close>

record stats =
  monthKey :: string
  totalDays :: nat
  lunchCount :: nat
  dinnerCount :: nat
  bothMealsCount :: nat
  onlyLunchCount :: nat
  onlyDinnerCount :: nat
  skippedBothCount :: nat
  totalMealsAttended :: nat
  totalPossibleMeals :: nat
  attendancePercentage :: percent
  lunchPercentage :: percent
  dinnerPercentage :: percent
  currentStreak :: nat
  longestStreak :: nat
  comparisonWithLastMonth :: comparison

fun tallyLoop :: "(string \<times> attval) list \<Rightarrow> string list \<Rightarrow> stats \<Rightarrow> error + stats" where
  "tallyLoop att [] st = Inr st"
| "tallyLoop att (date # rest) st =
     (case map_of att date of
        Some (Meals hasLunch hasDinner) \<Rightarrow>
          (let st1 = (if hasLunch then st\<lparr>lunchCount := lunchCount st + 1\<rparr> else st);
               st2 = (if hasDinner then st1\<lparr>dinnerCount := dinnerCount st1 + 1\<rparr> else st1);
               st3 = (if hasLunch \<and> hasDinner then st2\<lparr>bothMealsCount := bothMealsCount st2 + 1\<rparr>
                      else if hasLunch then st2\<lparr>onlyLunchCount := onlyLunchCount st2 + 1\<rparr>
                      else if hasDinner then st2\<lparr>onlyDinnerCount := onlyDinnerCount st2 + 1\<rparr>
                      else st2\<lparr>skippedBothCount := skippedBothCount st2 + 1\<rparr>)
           in tallyLoop att rest st3)
      | _ \<Rightarrow> Inl TypeError)"

fun lastMonthLoop :: "(string \<times> attval) list \<Rightarrow> string list \<Rightarrow> nat \<times> nat \<Rightarrow> error + nat \<times> nat" where
  "lastMonthLoop att [] acc = Inr acc"
| "lastMonthLoop att (date # rest) (lastLunchCount, lastDinnerCount) =
     (case map_of att date of
        Some (Meals l d) \<Rightarrow>
          lastMonthLoop att rest
            (if l then lastLunchCount + 1 else lastLunchCount,
             if d then lastDinnerCount + 1 else lastDinnerCount)
      | _ \<Rightarrow> Inl TypeError)"

definition compareWithLastMonth ::
  "jsdate \<Rightarrow> (string \<times> attval) list \<Rightarrow> stats \<Rightarrow> error + comparison" where
  "compareWithLastMonth currentMonth att currentStats =
     (let lastMonthKey = monthKeyOf (setMonth currentMonth (int (dmonth currentMonth) - 1));
          lastMonthDates = filter (\<lambda>date. startsWith date lastMonthKey) (map fst att)
      in if lastMonthDates = [] then Inr NotAvailable
         else case lastMonthLoop att lastMonthDates (0, 0) of
                Inl e \<Rightarrow> Inl e
              | Inr (lastLunchCount, lastDinnerCount) \<Rightarrow>
                  Inr (Available (int (lunchCount currentStats) - int lastLunchCount)
                                 (int (dinnerCount currentStats) - int lastDinnerCount)))"

definition calculateMonthlyStats :: "jsdate \<Rightarrow> (string \<times> attval) list \<Rightarrow> error + stats" where
  "calculateMonthlyStats currentMonth att =
     (let mk = monthKeyOf currentMonth;
          dates = sort (filter (\<lambda>date. startsWith date mk) (map fst att));
          st0 = \<lparr>monthKey = mk, totalDays = length dates, lunchCount = 0, dinnerCount = 0,
                 bothMealsCount = 0, onlyLunchCount = 0, onlyDinnerCount = 0,
                 skippedBothCount = 0, totalMealsAttended = 0, totalPossibleMeals = 0,
                 attendancePercentage = Number0, lunchPercentage = Number0,
                 dinnerPercentage = Number0, currentStreak = 0, longestStreak = 0,
                 comparisonWithLastMonth = NotAvailable\<rparr>
      in case tallyLoop att dates st0 of
           Inl e \<Rightarrow> Inl e
         | Inr st1 \<Rightarrow>
            (let st2 = st1\<lparr>totalMealsAttended := lunchCount st1 + dinnerCount st1,
                           totalPossibleMeals := totalDays st1 * 2\<rparr>;
                 st3 = st2\<lparr>attendancePercentage :=
                              (if totalPossibleMeals st2 > 0
                               then Fixed (toFixed1 (totalMealsAttended st2) (totalPossibleMeals st2))
                               else Number0),
                            lunchPercentage :=
                              (if totalDays st2 > 0
                               then Fixed (toFixed1 (lunchCount st2) (totalDays st2)) else Number0),
                            dinnerPercentage :=
                              (if totalDays st2 > 0
                               then Fixed (toFixed1 (dinnerCount st2) (totalDays st2)) else Number0)\<rparr>
             in case calculateCurrentStreak dates att of
                  Inl e \<Rightarrow> Inl e
                | Inr cs \<Rightarrow>
                   (case calculateLongestStreak dates att of
                      Inl e \<Rightarrow> Inl e
                    | Inr ls \<Rightarrow>
                       (let st4 = st3\<lparr>currentStreak := cs, longestStreak := ls\<rparr>
                        in case compareWithLastMonth currentMonth att st4 of
                             Inl e \<Rightarrow> Inl e
                           | Inr cmp \<Rightarrow> Inr (st4\<lparr>comparisonWithLastMonth := cmp\<rparr>)))))"

subsection \<open>Runs of attended days\<close>

definition dayAttended :: "(string \<times> attval) list \<Rightarrow> string \<Rightarrow> bool" where
  "dayAttended att date =
     (case map_of att date of Some (Meals l d) \<Rightarrow> l \<or> d | _ \<Rightarrow> False)"

definition daySkipped :: "(string \<times> attval) list \<Rightarrow> string \<Rightarrow> bool" where
  "daySkipped att date = (map_of att date = Some (Meals False False))"

definition hasRecord :: "(string \<times> attval) list \<Rightarrow> string \<Rightarrow> bool" where
  "hasRecord att date = (case map_of att date of Some (Meals l d) \<Rightarrow> True | _ \<Rightarrow> False)"

text \<open>
  The run the specification speaks of, in its words: the consecutive calendar dates
  ending today on which a meal was attended. \<open>calendarRun att today n\<close> walks back
  from \<open>today\<close> one calendar day at a time, at most \<open>n\<close> days, and stops at the
  first date that is missing from the map or has no meal attended.
\<close>

definition previousDay :: "jsdate \<Rightarrow> jsdate" where
  "previousDay t =
     (if 1 < dday t then t\<lparr>dday := dday t - 1\<rparr>
      else if 0 < dmonth t
      then \<lparr>dyear = dyear t, dmonth = dmonth t - 1, dday = daysInMonth (dyear t) (dmonth t - 1)\<rparr>
      else \<lparr>dyear = dyear t - 1, dmonth = 11, dday = 31\<rparr>)"

fun calendarRun :: "(string \<times> attval) list \<Rightarrow> jsdate \<Rightarrow> nat \<Rightarrow> nat" where
  "calendarRun att today 0 = 0"
| "calendarRun att today (Suc n) =
     (if dayAttended att (getTodayString today)
      then Suc (calendarRun att (previousDay today) n) else 0)"

text \<open>
  The longest run in the same words: a run ends on one of the days of the date set, so
  the maximum run length over the date set is the largest \<open>calendarRun\<close> ending on one
  of its days. \<open>days\<close> are the calendar days whose date strings make up the date set.
\<close>

definition longestCalendarRun :: "(string \<times> attval) list \<Rightarrow> jsdate list \<Rightarrow> nat" where
  "longestCalendarRun att days = fold max (map (\<lambda>t. calendarRun att t (length att)) days) 0"

text \<open>The attendance map of the example.\<close>

definition january :: "(string \<times> attval) list" where
  "january = [(''2024-01-01'', Meals True False), (''2024-01-02'', Meals False False),
              (''2024-01-03'', Meals True True)]"

section \<open>Archiving at the month rollover\<close>

text \<open>
  \<open>MessTrack.archivePreviousMonth\<close>, with today's date as input. The first loop over
  \<open>Object.entries\<close> reads \<open>meals.lunch\<close>, which throws when the value is \<open>undefined\<close>.
  The upload of the month and \<open>saveData\<close> change nothing of the data in memory and are
  left out. The counters \<open>lunchCount\<close>, \<open>dinnerCount\<close> and \<open>totalDays\<close> are named
  \<open>lunches\<close>, \<open>dinners\<close> and \<open>days\<close>.
\<close>

fun archiveLoop ::
  "(string \<times> attval) list \<Rightarrow> string \<Rightarrow> nat \<times> nat \<times> nat \<Rightarrow> error + nat \<times> nat \<times> nat" where
  "archiveLoop [] mk acc = Inr acc"
| "archiveLoop ((date, meals) # rest) mk (lunches, dinners, days) =
     (if startsWith date mk
      then (case meals of
              Meals l d \<Rightarrow>
                archiveLoop rest mk
                  (if l then lunches + 1 else lunches,
                   if d then dinners + 1 else dinners,
                   days + 1)
            | Undefined \<Rightarrow> Inl TypeError)
      else archiveLoop rest mk (lunches, dinners, days))"

definition archivePreviousMonth :: "jsdate \<Rightarrow> app_data \<Rightarrow> error + app_data" where
  "archivePreviousMonth today d =
     (let previousMonth = setMonth today (int (dmonth today) - 1);
          mk = monthKeyOf previousMonth
      in case archiveLoop (attendance d) mk (0, 0, 0) of
           Inl e \<Rightarrow> Inl e
         | Inr (lunches, dinners, days) \<Rightarrow>
             (if days > 0
              then Inr (d\<lparr>summaries :=
                          AList.update mk
                            (Summary lunches dinners days
                               (toFixed1 (lunches + dinners) (days * 2)))
                            (summaries d)\<rparr>)
              else Inr d))"

text \<open>
  The application with the item \<open>messtrack_last_reset\<close> of the local storage.
\<close>

record mess_track =
  trackData :: app_data
  lastReset :: "string option"

definition checkAndAutoReset :: "jsdate \<Rightarrow> mess_track \<Rightarrow> error + mess_track" where
  "checkAndAutoReset today s =
     (let currentMonth = monthKeyOf today in
      if lastReset s \<noteq> Some currentMonth
      then (case (if attendance (trackData s) \<noteq> []
                  then archivePreviousMonth today (trackData s)
                  else Inr (trackData s)) of
              Inl e \<Rightarrow> Inl e
            | Inr d \<Rightarrow> Inr \<lparr>trackData = d, lastReset = Some currentMonth\<rparr>)
      else Inr s)"

text \<open>
  The key of the month before today's, in the words of the specification: the month
  number less one, December of the year before for January.
\<close>

definition previousMonthKey :: "jsdate \<Rightarrow> string" where
  "previousMonthKey today =
     (if dmonth today = 0
      then monthKeyOf \<lparr>dyear = dyear today - 1, dmonth = 11, dday = 1\<rparr>
      else monthKeyOf \<lparr>dyear = dyear today, dmonth = dmonth today - 1, dday = 1\<rparr>)"

section \<open>The notification scheduler\<close>

text \<open>
  A scheduled notification (its click action is left out), the permission, the list of
  scheduled notifications and the minute last checked. A check returns the new state,
  the notifications handed to the browser (\<open>showNotification\<close> shows one only when the
  permission is granted) and the in-app banners it raised.
\<close>

record notification =
  nid :: string
  mealType :: string
  ntime :: string
  title :: string
  body :: string

datatype permission_state = Default | Granted | Denied

record notification_manager =
  permission :: permission_state
  scheduledNotifications :: "notification list"
  lastCheckedMinute :: "string option"

text \<open>
  \<open>attendance && attendance[notification.mealType]\<close> for \<open>attendance = data.attendance[today]\<close>:
  a day without a record, and a meal type other than \<open>lunch\<close> and \<open>dinner\<close>, are falsy.
\<close>

definition isMarked :: "(string \<times> attval) list \<Rightarrow> string \<Rightarrow> string \<Rightarrow> bool" where
  "isMarked att today mt =
     (case map_of att today of
        Some (Meals l d) \<Rightarrow> (if mt = ''lunch'' then l else if mt = ''dinner'' then d else False)
      | _ \<Rightarrow> False)"

fun notifyLoop ::
  "permission_state \<Rightarrow> (string \<times> attval) list \<Rightarrow> string \<Rightarrow> string \<Rightarrow> notification list
     \<Rightarrow> notification list \<times> notification list" where
  "notifyLoop perm att today currentTime [] = ([], [])"
| "notifyLoop perm att today currentTime (n # ns) =
     (let (shown, banners) = notifyLoop perm att today currentTime ns in
      if ntime n = currentTime \<and> \<not> isMarked att today (mealType n)
      then ((if perm = Granted then n # shown else shown), n # banners)
      else (shown, banners))"

definition checkScheduledNotifications ::
  "nat \<Rightarrow> nat \<Rightarrow> jsdate \<Rightarrow> (string \<times> attval) list \<Rightarrow> notification_manager
     \<Rightarrow> notification_manager \<times> notification list \<times> notification list" where
  "checkScheduledNotifications hours minutes now att m =
     (let currentTime = padStart2 (showNat hours) @ '':'' @ padStart2 (showNat minutes);
          today = getTodayString now
      in if lastCheckedMinute m = Some currentTime then (m, [], [])
         else (m\<lparr>lastCheckedMinute := Some currentTime\<rparr>,
               notifyLoop (permission m) att today currentTime (scheduledNotifications m)))"

section \<open>Writing to the local storage under a quota\<close>

text \<open>
  An item of the local storage is the JSON text of an object, kept as its list of keys
  and value texts (\<open>Doc\<close>), or a string that \<open>JSON.parse\<close> rejects (\<open>Text\<close>; the empty
  string is falsy and is read as \<open>{}\<close>). Whether \<open>setItem\<close> accepts a write is the
  browser's decision: \<open>deny\<close> maps the content the storage would have after the write
  to the error thrown, if any. The browser state also holds every \<open>setItem\<close> attempt
  made, the toasts shown, and whether \<open>window.messTrack\<close> exists.
\<close>

datatype item = Doc "(string \<times> string) list" | Text string

datatype storage_error = QuotaExceededError | NS_ERROR_DOM_QUOTA_REACHED | OtherError

record browser =
  localStorage :: "(string \<times> item) list"
  attempts :: "(string \<times> item) list"
  toasts :: "string list"
  messTrackLoaded :: bool

definition setItem ::
  "((string \<times> item) list \<Rightarrow> storage_error option) \<Rightarrow> string \<Rightarrow> item \<Rightarrow> browser
     \<Rightarrow> storage_error option \<times> browser" where
  "setItem deny key val b =
     (let b1 = b\<lparr>attempts := attempts b @ [(key, val)]\<rparr>;
          content = AList.update key val (localStorage b)
      in case deny content of
           None \<Rightarrow> (None, b1\<lparr>localStorage := content\<rparr>)
         | Some e \<Rightarrow> (Some e, b1))"

text \<open>\<open>JSON.parse(localStorage.getItem(key) || '{}')\<close>; \<open>None\<close> when it throws.\<close>

definition parseItem :: "(string \<times> item) list \<Rightarrow> string \<Rightarrow> (string \<times> string) list option" where
  "parseItem st key =
     (case map_of st key of
        None \<Rightarrow> Some []
      | Some (Doc kvs) \<Rightarrow> Some kvs
      | Some (Text t) \<Rightarrow> (if t = [] then Some [] else None))"

text \<open>
  \<open>cleanOldData\<close>; the cutoff date string (two years before now) comes from the clock.
  It returns the number of entries removed, or \<open>0\<close> when anything threw.
\<close>

definition cleanOldData ::
  "((string \<times> item) list \<Rightarrow> storage_error option) \<Rightarrow> string \<Rightarrow> browser \<Rightarrow> nat \<times> browser" where
  "cleanOldData deny cutoffDate b =
     (case parseItem (localStorage b) ''messtrack_attendance'' of
        None \<Rightarrow> (0, b)
      | Some att \<Rightarrow>
         (case parseItem (localStorage b) ''messtrack_notes'' of
            None \<Rightarrow> (0, b)
          | Some nts \<Rightarrow>
             (let att1 = filter (\<lambda>(date, v). \<not> date < cutoffDate) att;
                  nts1 = filter (\<lambda>(date, v). \<not> date < cutoffDate) nts;
                  cleaned = (length att - length att1) + (length nts - length nts1)
              in if cleaned > 0
                 then (case setItem deny ''messtrack_attendance'' (Doc att1) b of
                         (Some e, b1) \<Rightarrow> (0, b1)
                       | (None, b1) \<Rightarrow>
                          (case setItem deny ''messtrack_notes'' (Doc nts1) b1 of
                             (Some e, b2) \<Rightarrow> (0, b2)
                           | (None, b2) \<Rightarrow> (cleaned, b2)))
                 else (cleaned, b))))"

definition storageFullWarning :: string where
  "storageFullWarning = ''Storage full. Please export and clear old data.''"

text \<open>\<open>safeSetItem\<close> returns its boolean or rethrows an error that is not a quota error.\<close>

definition safeSetItem ::
  "((string \<times> item) list \<Rightarrow> storage_error option) \<Rightarrow> string \<Rightarrow> string \<Rightarrow> item \<Rightarrow> browser
     \<Rightarrow> (storage_error + bool) \<times> browser" where
  "safeSetItem deny cutoffDate key val b =
     (case setItem deny key val b of
        (None, b1) \<Rightarrow> (Inr True, b1)
      | (Some e, b1) \<Rightarrow>
         (if e = QuotaExceededError \<or> e = NS_ERROR_DOM_QUOTA_REACHED
          then (case cleanOldData deny cutoffDate b1 of
                  (cleaned, b2) \<Rightarrow>
                    (if cleaned > 0
                     then (case setItem deny key val b2 of
                             (None, b3) \<Rightarrow> (Inr True, b3)
                           | (Some retryError, b3) \<Rightarrow> (Inr False, b3))
                     else (Inr False,
                           (if messTrackLoaded b2
                            then b2\<lparr>toasts := toasts b2 @ [storageFullWarning]\<rparr> else b2))))
          else (Inl e, b1)))"

text \<open>
  A browser that refuses every content of more than \<open>limit\<close> entries, an object
  counting its keys and a string counting one.
\<close>

fun itemSize :: "item \<Rightarrow> nat" where
  "itemSize (Doc kvs) = length kvs"
| "itemSize (Text t) = 1"

definition atMost :: "nat \<Rightarrow> (string \<times> item) list \<Rightarrow> storage_error option" where
  "atMost limit content =
     (if sum_list (map (\<lambda>(k, v). itemSize v) content) > limit
      then Some QuotaExceededError else None)"

text \<open>Two reminders due at noon, and two browsers at their quota.\<close>

definition lunchReminder :: notification where
  "lunchReminder = \<lparr>nid = ''lunch_at_time'', mealType = ''lunch'', ntime = ''12:00'',
      title = ''Time for Lunch!'', body = ''Remember to mark your lunch attendance''\<rparr>"

definition dinnerReminder :: notification where
  "dinnerReminder = \<lparr>nid = ''dinner_before_30'', mealType = ''dinner'', ntime = ''12:00'',
      title = ''Dinner in 30 minutes!'', body = ''Don't forget to mark your dinner attendance''\<rparr>"

definition fullBrowser :: browser where
  "fullBrowser = \<lparr>localStorage = [(''messtrack_attendance'', Doc [(''2099-01-01'', ''{}'')])],
                  attempts = [], toasts = [], messTrackLoaded = True\<rparr>"

definition oldBrowser :: browser where
  "oldBrowser = \<lparr>localStorage =
                    [(''messtrack_attendance'', Doc [(''2020-01-01'', ''{}''), (''2024-10-01'', ''{}'')]),
                     (''messtrack_notes'', Doc [(''2019-05-05'', ''x'')])],
                 attempts = [], toasts = [], messTrackLoaded = True\<rparr>"

section \<open>Properties of the undo manager\<close>

lemma wellFormed_constructor: "wellFormed constructor"
  by (simp add: wellFormed_def constructor_def)

lemma wellFormed_recordAction: "wellFormed m \<Longrightarrow> wellFormed (recordAction stamp a m)"
  by (auto simp: wellFormed_def recordAction_def slice0_def Let_def maxHistorySize_def min_def)

lemma top_recordAction:
  "wellFormed m \<Longrightarrow>
     currentIndex (recordAction stamp a m) = int (length (history (recordAction stamp a m))) - 1"
  by (auto simp: wellFormed_def recordAction_def slice0_def Let_def maxHistorySize_def min_def)

lemma wellFormed_clearHistory: "wellFormed (clearHistory m)"
  by (simp add: wellFormed_def clearHistory_def)

lemma um_undo:
  "wellFormed (undoManager w) \<Longrightarrow>
     undoManager (snd (undo w)) =
       (undoManager w)\<lparr>currentIndex :=
          (if canUndo (undoManager w) then currentIndex (undoManager w) - 1
           else currentIndex (undoManager w))\<rparr>"
  by (auto simp: undo_def Let_def wellFormed_def canUndo_def)

lemma um_redo:
  "wellFormed (undoManager w) \<Longrightarrow>
     undoManager (snd (redo w)) =
       (undoManager w)\<lparr>currentIndex :=
          (if canRedo (undoManager w) then currentIndex (undoManager w) + 1
           else currentIndex (undoManager w))\<rparr>"
  by (auto simp: redo_def Let_def wellFormed_def canRedo_def)

lemma wellFormed_undo: "wellFormed (undoManager w) \<Longrightarrow> wellFormed (undoManager (snd (undo w)))"
  by (auto simp: um_undo wellFormed_def canUndo_def)

lemma wellFormed_redo: "wellFormed (undoManager w) \<Longrightarrow> wellFormed (undoManager (snd (redo w)))"
  by (auto simp: um_redo wellFormed_def canRedo_def)

lemma reachable_wellFormed: "reachable w \<Longrightarrow> wellFormed (undoManager w)"
  by (induction rule: reachable.induct)
     (simp_all add: wellFormed_constructor wellFormed_recordAction wellFormed_undo
        wellFormed_redo wellFormed_clearHistory)

lemma um_undoN:
  "wellFormed (undoManager w) \<Longrightarrow>
     undoManager (undoN k w) =
       (undoManager w)\<lparr>currentIndex :=
          currentIndex (undoManager w) - int (min k (nat (currentIndex (undoManager w) + 1)))\<rparr>"
proof (induction k arbitrary: w)
  case 0
  then show ?case by simp
next
  case (Suc k)
  have "wellFormed (undoManager (snd (undo w)))"
    using Suc.prems by (rule wellFormed_undo)
  from Suc.IH[OF this] Suc.prems show ?case
    by (auto simp: um_undo canUndo_def wellFormed_def min_def)
qed

lemma wellFormed_recordAll: "wellFormed m \<Longrightarrow> wellFormed (recordAll acts m)"
  by (induction acts arbitrary: m) (auto simp: wellFormed_recordAction)

lemma top_recordAll:
  "wellFormed m \<Longrightarrow> acts \<noteq> [] \<Longrightarrow>
     currentIndex (recordAll acts m) = int (length (history (recordAll acts m))) - 1"
proof (induction acts arbitrary: m)
  case Nil
  then show ?case by simp
next
  case (Cons x acts)
  obtain stamp a where x: "x = (stamp, a)" by (cases x)
  show ?case
  proof (cases "acts = []")
    case True
    then show ?thesis using Cons.prems x by (simp add: top_recordAction)
  next
    case False
    then show ?thesis using Cons.IH[of "recordAction stamp a m"] Cons.prems x
      by (simp add: wellFormed_recordAction)
  qed
qed

lemma record_below_top:
  assumes "wellFormed m" "currentIndex m = int (length (history m)) - 1" "1 \<le> M"
  shows "history (recordAction stamp a
            (m\<lparr>currentIndex := currentIndex m - int (min M (nat (currentIndex m + 1)))\<rparr>))
           = take (length (history m) - M) (history m)
               @ [\<lparr>eaction = a, timestamp = fst stamp, eid = snd stamp\<rparr>]"
    and "\<not> canRedo (recordAction stamp a
            (m\<lparr>currentIndex := currentIndex m - int (min M (nat (currentIndex m + 1)))\<rparr>))"
proof -
  have n: "nat (int (length (history m)) - int M) = length (history m) - M" by simp
  show "history (recordAction stamp a
            (m\<lparr>currentIndex := currentIndex m - int (min M (nat (currentIndex m + 1)))\<rparr>))
           = take (length (history m) - M) (history m)
               @ [\<lparr>eaction = a, timestamp = fst stamp, eid = snd stamp\<rparr>]"
    using assms n
    by (auto simp: wellFormed_def recordAction_def slice0_def Let_def maxHistorySize_def min_def)
  show "\<not> canRedo (recordAction stamp a
            (m\<lparr>currentIndex := currentIndex m - int (min M (nat (currentIndex m + 1)))\<rparr>))"
    using assms
    by (auto simp: wellFormed_def recordAction_def slice0_def Let_def maxHistorySize_def
          min_def canRedo_def)
qed

lemma reachable_recordAll:
  "reachable w \<Longrightarrow> reachable (w\<lparr>undoManager := recordAll acts (undoManager w)\<rparr>)"
proof (induction acts arbitrary: w)
  case Nil
  then show ?case by simp
next
  case (Cons x acts)
  obtain stamp a where x: "x = (stamp, a)" by (cases x)
  have "reachable (w\<lparr>undoManager := recordAction stamp a (undoManager w)\<rparr>)"
    using Cons.prems by (rule reachable.recorded)
  from Cons.IH[OF this] show ?case by (simp add: x)
qed

lemma fiftyExports_recorded:
  "recordAll fiftyExports constructor =
     \<lparr>history = replicate 50 \<lparr>eaction = Other ''export'', timestamp = 0, eid = ''x''\<rparr>,
      currentIndex = 49\<rparr>"
  by code_simp

subsection \<open>Undoing and redoing recorded toggles\<close>

lemma setMeal_twice: "setMeal mt b (setMeal mt b' (Meals l n)) = setMeal mt b (Meals l n)"
  by (cases mt) simp_all

lemma setMeal_same: "getMeal mt (Meals l n) = b \<Longrightarrow> setMeal mt b (Meals l n) = Meals l n"
  by (cases mt) auto

lemma setMeal_Meals: "\<exists>l' n'. setMeal mt b (Meals l n) = Meals l' n'"
  by (cases mt) simp_all

lemma getMeal_setMeal: "getMeal mt (setMeal mt b (Meals l n)) = b"
  by (cases mt) simp_all

lemma toggle_roundtrip: "toggleOk a d \<Longrightarrow> executeRedo a (executeUndo a d) = d"
proof (cases a)
  case (MarkAttendance date mt)
  assume ok: "toggleOk a d"
  then obtain l n where m: "map_of (attendance d) date = Some (Meals l n)" and g: "getMeal mt (Meals l n)"
    using MarkAttendance by (auto split: option.splits attval.splits)
  obtain l' n' where s: "setMeal mt False (Meals l n) = Meals l' n'" using setMeal_Meals by blast
  have "setMeal mt True (Meals l' n') = Meals l n"
    using setMeal_twice[of mt True False l n] setMeal_same[of mt l n True] g s by simp
  then show ?thesis using MarkAttendance m s
    by (simp add: undoMarkAttendance_def redoMarkAttendance_def AList.update_conv' AList.update_triv)
next
  case (UnmarkAttendance date mt)
  assume ok: "toggleOk a d"
  then obtain l n where m: "map_of (attendance d) date = Some (Meals l n)" and g: "\<not> getMeal mt (Meals l n)"
    using UnmarkAttendance by (auto split: option.splits attval.splits)
  obtain l' n' where s: "setMeal mt True (Meals l n) = Meals l' n'" using setMeal_Meals by blast
  have "setMeal mt False (Meals l' n') = Meals l n"
    using setMeal_twice[of mt False True l n] setMeal_same[of mt l n False] g s by simp
  then show ?thesis using UnmarkAttendance m s
    by (simp add: undoUnmarkAttendance_def redoUnmarkAttendance_def AList.update_conv' AList.update_triv)
qed simp_all

lemma redoN_Suc_right: "redoN (Suc k) w = snd (redo (redoN k w))"
  by (induction k arbitrary: w) simp_all

lemma undo_step:
  assumes "0 \<le> currentIndex m" "currentIndex m < int (length (history m))"
  shows "snd (undo \<lparr>appData = d, undoManager = m\<rparr>) =
           \<lparr>appData = executeUndo (eaction (history m ! nat (currentIndex m))) d,
            undoManager = m\<lparr>currentIndex := currentIndex m - 1\<rparr>\<rparr>"
  using assms by (simp add: undo_def Let_def canUndo_def)

lemma redo_step:
  assumes "0 \<le> currentIndex m" "currentIndex m < int (length (history m))"
  shows "snd (redo \<lparr>appData = d, undoManager = m\<lparr>currentIndex := currentIndex m - 1\<rparr>\<rparr>) =
           \<lparr>appData = executeRedo (eaction (history m ! nat (currentIndex m))) d,
            undoManager = m\<rparr>"
  using assms by (simp add: redo_def Let_def canRedo_def)

lemma topActs_unfold:
  assumes "0 \<le> currentIndex m" "currentIndex m < int (length (history m))"
  shows "topActs m = eaction (history m ! nat (currentIndex m))
                       # topActs (m\<lparr>currentIndex := currentIndex m - 1\<rparr>)"
proof -
  have "nat (currentIndex m + 1) = Suc (nat (currentIndex m))" using assms by simp
  moreover have "nat (currentIndex m) < length (history m)" using assms by simp
  ultimately show ?thesis
    by (simp add: topActs_def take_Suc_conv_app_nth)
qed

lemma chain_roundtrip:
  "wellFormed m \<Longrightarrow> k \<le> nat (currentIndex m + 1) \<Longrightarrow> chainOk (take k (topActs m)) d \<Longrightarrow>
     redoN k (undoN k \<lparr>appData = d, undoManager = m\<rparr>) = \<lparr>appData = d, undoManager = m\<rparr>"
proof (induction k arbitrary: m d)
  case 0
  then show ?case by simp
next
  case (Suc k)
  let ?a = "eaction (history m ! nat (currentIndex m))"
  let ?m' = "m\<lparr>currentIndex := currentIndex m - 1\<rparr>"
  have c0: "0 \<le> currentIndex m" using Suc.prems(2) by simp
  have c1: "currentIndex m < int (length (history m))" using Suc.prems(1) by (simp add: wellFormed_def)
  have wf': "wellFormed ?m'" using Suc.prems(1) c0 by (simp add: wellFormed_def)
  have k': "k \<le> nat (currentIndex ?m' + 1)" using Suc.prems(2) by simp
  have top: "topActs m = ?a # topActs ?m'" using c0 c1 by (rule topActs_unfold)
  have ok: "toggleOk ?a d" and ch: "chainOk (take k (topActs ?m')) (executeUndo ?a d)"
    using Suc.prems(3) top by simp_all
  have "redoN (Suc k) (undoN (Suc k) \<lparr>appData = d, undoManager = m\<rparr>)
          = snd (redo (redoN k (undoN k \<lparr>appData = executeUndo ?a d, undoManager = ?m'\<rparr>)))"
    using undo_step[OF c0 c1, of d] by (simp only: redoN_Suc_right undoN.simps)
  also have "\<dots> = snd (redo \<lparr>appData = executeUndo ?a d, undoManager = ?m'\<rparr>)"
    using Suc.IH[OF wf' k' ch] by simp
  also have "\<dots> = \<lparr>appData = executeRedo ?a (executeUndo ?a d), undoManager = m\<rparr>"
    using redo_step[OF c0 c1] by simp
  finally show ?case using toggle_roundtrip[OF ok] by simp
qed

lemma undoN_stuck: "\<not> canUndo (undoManager w) \<Longrightarrow> undoN k w = w"
  by (induction k) (simp_all add: undo_def Let_def)

lemma redoN_stuck: "\<not> canRedo (undoManager w) \<Longrightarrow> redoN k w = w"
  by (induction k) (simp_all add: redo_def Let_def)

lemma undoN_add: "undoN (j + k) w = undoN k (undoN j w)"
  by (induction j arbitrary: w) simp_all

lemma redoN_add: "redoN (j + k) w = redoN k (redoN j w)"
  by (induction j arbitrary: w) simp_all

lemma chain_roundtrip_top:
  assumes wf: "wellFormed m" and top: "currentIndex m = int (length (history m)) - 1"
    and ch: "chainOk (take k (topActs m)) d"
  shows "redoN k (undoN k \<lparr>appData = d, undoManager = m\<rparr>) = \<lparr>appData = d, undoManager = m\<rparr>"
proof (cases "k \<le> nat (currentIndex m + 1)")
  case True
  then show ?thesis using chain_roundtrip[OF wf _ ch] by simp
next
  case False
  let ?j = "nat (currentIndex m + 1)"
  let ?w = "\<lparr>appData = d, undoManager = m\<rparr>"
  obtain r where k: "k = ?j + r" using False by (metis le_add_diff_inverse nat_le_linear)
  have len: "length (topActs m) = ?j" using wf by (auto simp: topActs_def wellFormed_def min_def)
  have ch': "chainOk (take ?j (topActs m)) d"
    using ch False len by simp
  have rt: "redoN ?j (undoN ?j ?w) = ?w" using chain_roundtrip[OF wf _ ch'] by simp
  have "currentIndex (undoManager (undoN ?j ?w)) = - 1"
    using um_undoN[of ?w ?j] wf by (simp add: wellFormed_def)
  then have "\<not> canUndo (undoManager (undoN ?j ?w))" by (simp add: canUndo_def)
  then have u: "undoN k ?w = undoN ?j ?w" by (simp add: k undoN_add undoN_stuck)
  have "\<not> canRedo (undoManager ?w)" using top by (simp add: canRedo_def)
  then have "redoN r ?w = ?w" by (rule redoN_stuck)
  then show ?thesis using u rt by (simp add: k redoN_add)
qed

lemma topActs_recordAction:
  assumes "wellFormed m"
  shows "topActs (recordAction stamp a m) = take maxHistorySize (a # topActs m)"
proof -
  let ?e = "\<lparr>eaction = a, timestamp = fst stamp, eid = snd stamp\<rparr>"
  let ?c = "nat (currentIndex m + 1)"
  have c: "?c \<le> length (history m)" "length (history m) \<le> 50" "- 1 \<le> currentIndex m"
    using assms by (auto simp: wellFormed_def maxHistorySize_def)
  have sl: "slice0 (history m) (currentIndex m + 1) = take ?c (history m)"
    using c by (simp add: slice0_def)
  show ?thesis
  proof (cases "?c = 50")
    case True
    then have full: "take ?c (history m) = history m" using c by simp
    have ne: "history m \<noteq> []" using True c by auto
    have len: "length (history m) = 50" using True c by simp
    have ci: "currentIndex m = 49" using True by simp
    have s50: "slice0 (history m) 50 = history m" using len by (simp add: slice0_def)
    have "topActs (recordAction stamp a m) = map eaction (rev (tl (history m) @ [?e]))"
      using len ne ci by (simp add: recordAction_def s50 Let_def maxHistorySize_def topActs_def)
    also have "\<dots> = a # map eaction (rev (tl (history m)))" by simp
    also have "rev (tl (history m)) = butlast (rev (history m))" by (simp add: butlast_rev)
    also have "\<dots> = take 49 (rev (history m))" using len by (simp add: butlast_conv_take)
    finally show ?thesis using len ci
      by (simp add: topActs_def maxHistorySize_def take_map)
  next
    case False
    then have lt: "?c < 50" using c by simp
    have l: "length (take ?c (history m)) = ?c" using c by simp
    have n: "nat (currentIndex m + 1 + 1) = Suc ?c" using c by simp
    have "topActs (recordAction stamp a m) = a # topActs m"
      using lt l n by (simp add: recordAction_def sl Let_def maxHistorySize_def topActs_def)
    moreover have "length (topActs m) < 50" using lt c by (simp add: topActs_def)
    ultimately show ?thesis by (simp add: maxHistorySize_def)
  qed
qed

lemma toggle_agrees:
  assumes "toggleOk a d" "agreesOn d x"
  shows "toggleOk a x \<and> agreesOn (executeUndo a d) (executeUndo a x)"
proof (cases a)
  case (MarkAttendance date mt)
  then obtain l n where m: "map_of (attendance d) date = Some (Meals l n)"
    using assms(1) by (auto split: option.splits attval.splits)
  then have mx: "map_of (attendance x) date = Some (Meals l n)"
    using assms(2) by (simp add: agreesOn_def)
  show ?thesis using MarkAttendance assms m mx
    by (auto simp: agreesOn_def undoMarkAttendance_def AList.update_conv')
next
  case (UnmarkAttendance date mt)
  then obtain l n where m: "map_of (attendance d) date = Some (Meals l n)"
    using assms(1) by (auto split: option.splits attval.splits)
  then have mx: "map_of (attendance x) date = Some (Meals l n)"
    using assms(2) by (simp add: agreesOn_def)
  show ?thesis using UnmarkAttendance assms m mx
    by (auto simp: agreesOn_def undoUnmarkAttendance_def AList.update_conv')
qed (use assms in simp_all)

lemma chainOk_agrees: "chainOk xs d \<Longrightarrow> agreesOn d x \<Longrightarrow> chainOk xs x"
proof (induction xs arbitrary: d x)
  case Nil
  then show ?case by simp
next
  case (Cons a xs)
  then show ?case using toggle_agrees[of a d x] by auto
qed

lemma chainOk_take: "chainOk xs d \<Longrightarrow> chainOk (take k xs) d"
proof (induction xs arbitrary: d k)
  case Nil
  then show ?case by simp
next
  case (Cons a xs)
  then show ?case by (cases k) auto
qed

lemma markAttendance_recorded:
  "\<exists>a. undoManager (markAttendance stamp ty today w) = recordAction stamp a (undoManager w)
       \<and> toggleOk a (appData (markAttendance stamp ty today w))
       \<and> agreesOn (appData w) (executeUndo a (appData (markAttendance stamp ty today w)))"
proof (cases "map_of (attendance (appData w)) today")
  case None
  show ?thesis
    apply (rule exI[of _ "MarkAttendance today ty"])
    using None
    by (cases ty) (auto simp: markAttendance_def Let_def AList.update_conv' agreesOn_def undoMarkAttendance_def)
next
  case (Some v)
  show ?thesis
  proof (cases v)
    case Undefined
    show ?thesis
      apply (rule exI[of _ "MarkAttendance today ty"])
      using Some Undefined
      by (cases ty) (auto simp: markAttendance_def Let_def AList.update_conv' agreesOn_def undoMarkAttendance_def)
  next
    case (Meals l n)
    show ?thesis
    proof (cases "getMeal ty (Meals l n)")
      case True
      show ?thesis
        apply (rule exI[of _ "UnmarkAttendance today ty"])
        using Some Meals True
        by (cases ty) (auto simp: markAttendance_def Let_def AList.update_conv' agreesOn_def undoUnmarkAttendance_def)
    next
      case False
      show ?thesis
        apply (rule exI[of _ "MarkAttendance today ty"])
        using Some Meals False
        by (cases ty) (auto simp: markAttendance_def Let_def AList.update_conv' agreesOn_def undoMarkAttendance_def)
    qed
  qed
qed

lemma markAll_append:
  "markAll (ts @ [(stamp, ty, today)]) w = markAttendance stamp ty today (markAll ts w)"
  by (induction ts arbitrary: w) auto

lemma wellFormed_markAttendance:
  "wellFormed (undoManager w) \<Longrightarrow> wellFormed (undoManager (markAttendance stamp ty today w))"
  by (simp add: markAttendance_def Let_def wellFormed_recordAction)

lemma top_markAttendance:
  "wellFormed (undoManager w) \<Longrightarrow>
     currentIndex (undoManager (markAttendance stamp ty today w))
       = int (length (history (undoManager (markAttendance stamp ty today w)))) - 1"
  by (simp add: markAttendance_def Let_def top_recordAction)

lemma wellFormed_markAll:
  "wellFormed (undoManager w) \<Longrightarrow> wellFormed (undoManager (markAll ts w))"
  by (induction ts arbitrary: w) (auto simp: wellFormed_markAttendance)

lemma markAll_chain:
  "wellFormed (undoManager w) \<Longrightarrow> K \<le> length ts \<Longrightarrow>
     chainOk (take K (topActs (undoManager (markAll ts w)))) (appData (markAll ts w))"
proof (induction ts arbitrary: K rule: rev_induct)
  case Nil
  then show ?case by simp
next
  case (snoc t ts)
  obtain stamp ty today where t: "t = (stamp, ty, today)" by (cases t)
  let ?w = "markAll ts w"
  let ?w' = "markAttendance stamp ty today ?w"
  have wf: "wellFormed (undoManager ?w)" using snoc.prems(1) by (rule wellFormed_markAll)
  obtain a where um: "undoManager ?w' = recordAction stamp a (undoManager ?w)"
    and ok: "toggleOk a (appData ?w')"
    and ag: "agreesOn (appData ?w) (executeUndo a (appData ?w'))"
    using markAttendance_recorded by blast
  have top: "topActs (undoManager ?w') = a # take 49 (topActs (undoManager ?w))"
    using topActs_recordAction[OF wf, of stamp a] um by (simp add: maxHistorySize_def)
  show ?case
  proof (cases K)
    case 0
    then show ?thesis by simp
  next
    case (Suc K')
    then have "K' \<le> length ts" using snoc.prems(2) by simp
    from snoc.IH[OF snoc.prems(1) this]
    have "chainOk (take K' (topActs (undoManager ?w))) (executeUndo a (appData ?w'))"
      using ag by (rule chainOk_agrees)
    then have "chainOk (take 49 (take K' (topActs (undoManager ?w)))) (executeUndo a (appData ?w'))"
      by (rule chainOk_take)
    then have "chainOk (take K' (take 49 (topActs (undoManager ?w)))) (executeUndo a (appData ?w'))"
      by (simp add: min.commute)
    then show ?thesis using ok top Suc by (simp add: t markAll_append)
  qed
qed

text \<open>
  C1 (as amended). For every sequence of attendance toggles made through
  \<open>markAttendance\<close>, each recording its \<open>mark_attendance\<close> or \<open>unmark_attendance\<close>
  action, from a well-formed undo manager: \<open>K\<close> undo calls, \<open>K\<close> at most the number
  of toggles, followed by \<open>K\<close> redo calls restore the application data (and the undo
  manager) exactly.
\<close>

theorem toggles_undo_redo_roundtrip:
  assumes "wellFormed (undoManager w0)" "K \<le> length ts"
  shows "redoN K (undoN K (markAll ts w0)) = markAll ts w0"
proof (cases "ts = []")
  case True
  then show ?thesis using assms(2) by simp
next
  case False
  then obtain ts' t where ts: "ts = ts' @ [t]" by (metis rev_exhaust)
  obtain stamp ty today where t: "t = (stamp, ty, today)" by (cases t)
  let ?w = "markAll ts w0"
  have wf: "wellFormed (undoManager ?w)" using assms(1) by (rule wellFormed_markAll)
  have top: "currentIndex (undoManager ?w) = int (length (history (undoManager ?w))) - 1"
    using top_markAttendance[OF wellFormed_markAll[OF assms(1)], of stamp ty today ts']
    by (simp add: ts t markAll_append)
  have ch: "chainOk (take K (topActs (undoManager ?w))) (appData ?w)"
    using assms by (rule markAll_chain)
  have "redoN K (undoN K \<lparr>appData = appData ?w, undoManager = undoManager ?w\<rparr>)
          = \<lparr>appData = appData ?w, undoManager = undoManager ?w\<rparr>"
    using wf top ch by (rule chain_roundtrip_top)
  moreover have "\<lparr>appData = appData ?w, undoManager = undoManager ?w\<rparr> = ?w"
    by (cases ?w) simp
  ultimately show ?thesis by simp
qed

theorem toggles_undo_redo_roundtrip_witness:
  "redoN 2 (undoN 2
     (markAll [((1, ''a''), Lunch, ''2024-01-01''), ((2, ''b''), Dinner, ''2024-01-01''),
               ((3, ''c''), Lunch, ''2024-01-01'')]
        \<lparr>appData = \<lparr>attendance = [], noteMap = [], summaries = []\<rparr>,
         undoManager = constructor\<rparr>))
   = markAll [((1, ''a''), Lunch, ''2024-01-01''), ((2, ''b''), Dinner, ''2024-01-01''),
              ((3, ''c''), Lunch, ''2024-01-01'')]
       \<lparr>appData = \<lparr>attendance = [], noteMap = [], summaries = []\<rparr>,
        undoManager = constructor\<rparr>"
  using toggles_undo_redo_roundtrip
          [of "\<lparr>appData = \<lparr>attendance = [], noteMap = [], summaries = []\<rparr>,
                undoManager = constructor\<rparr>" 2
              "[((1, ''a''), Lunch, ''2024-01-01''), ((2, ''b''), Dinner, ''2024-01-01''),
                ((3, ''c''), Lunch, ''2024-01-01'')]"]
  by (simp add: wellFormed_constructor)

text \<open>
  C1 as stated fails: \<open>recordAction\<close> accepts any action, and undo and redo replay it by
  its type. With the day's lunch unmarked and a \<open>mark_attendance\<close> for it recorded, one
  undo leaves lunch unmarked and one redo marks it.
\<close>

theorem recorded_actions_roundtrip_counterexample:
  "appData (redoN 1 (undoN 1
      \<lparr>appData = \<lparr>attendance = [(''2024-01-01'', Meals False False)], noteMap = [], summaries = []\<rparr>,
       undoManager = recordAll [((1, ''a''), MarkAttendance ''2024-01-01'' Lunch)] constructor\<rparr>))
   \<noteq> \<lparr>attendance = [(''2024-01-01'', Meals False False)], noteMap = [], summaries = []\<rparr>"
  by (simp add: recordAction_def slice0_def constructor_def maxHistorySize_def undo_def redo_def
        canUndo_def canRedo_def undoMarkAttendance_def redoMarkAttendance_def Let_def)

text \<open>
  The batch update of the attendance manager records \<open>bulk_edit\<close> changes that carry
  no \<open>oldValue\<close> and no \<open>newValue\<close>: undoing such an entry deletes the day, redoing
  it stores \<open>undefined\<close> under the date.
\<close>

lemma bulk_edit_without_values:
  "executeRedo (BulkEdit [Change ''2024-01-01'' Undefined Undefined])
     (executeUndo (BulkEdit [Change ''2024-01-01'' Undefined Undefined])
        \<lparr>attendance = [(''2024-01-01'', Meals True False)], noteMap = [], summaries = []\<rparr>)
   = \<lparr>attendance = [(''2024-01-01'', Undefined)], noteMap = [], summaries = []\<rparr>"
  by simp

section \<open>Recording after undo, capacity, reloading\<close>

text \<open>
  C2. In a state reached by recording at least one action and then calling \<open>undo\<close>
  \<open>M \<ge> 1\<close> times, \<open>recordAction\<close> drops the last \<open>M\<close> entries of the history (all of
  them when there are fewer), appends the new entry, and leaves \<open>canRedo()\<close> false.
\<close>

theorem recordAction_after_undo_discards_redo:
  assumes "reachable w0" "acts \<noteq> []" "1 \<le> M"
  shows "let w1 = w0\<lparr>undoManager := recordAll acts (undoManager w0)\<rparr>;
             h = history (undoManager w1);
             m2 = recordAction stamp a (undoManager (undoN M w1))
         in history m2 = take (length h - M) h
                           @ [\<lparr>eaction = a, timestamp = fst stamp, eid = snd stamp\<rparr>]
            \<and> \<not> canRedo m2"
proof -
  let ?m1 = "recordAll acts (undoManager w0)"
  have wf1: "wellFormed ?m1"
    using assms(1) by (simp add: reachable_wellFormed wellFormed_recordAll)
  have top: "currentIndex ?m1 = int (length (history ?m1)) - 1"
    using assms(1,2) by (simp add: reachable_wellFormed top_recordAll)
  have um: "undoManager (undoN M (w0\<lparr>undoManager := ?m1\<rparr>)) =
        ?m1\<lparr>currentIndex := currentIndex ?m1 - int (min M (nat (currentIndex ?m1 + 1)))\<rparr>"
    using um_undoN[of "w0\<lparr>undoManager := ?m1\<rparr>" M] wf1 by simp
  show ?thesis
    unfolding Let_def using record_below_top[OF wf1 top assms(3)] um by simp
qed

theorem recordAction_after_undo_discards_redo_witness:
  "history (recordAction (4, ''d'') (Other ''export'')
      (undoManager (undoN 2
         \<lparr>appData = \<lparr>attendance = [], noteMap = [], summaries = []\<rparr>,
          undoManager = recordAll [((1, ''a''), MarkAttendance ''2024-01-01'' Lunch),
                                   ((2, ''b''), MarkAttendance ''2024-01-01'' Dinner),
                                   ((3, ''c''), UnmarkAttendance ''2024-01-01'' Lunch)]
                          constructor\<rparr>)))
    = [\<lparr>eaction = MarkAttendance ''2024-01-01'' Lunch, timestamp = 1, eid = ''a''\<rparr>,
       \<lparr>eaction = Other ''export'', timestamp = 4, eid = ''d''\<rparr>]"
  using recordAction_after_undo_discards_redo
           [OF reachable.fresh,
            of "[((1, ''a''), MarkAttendance ''2024-01-01'' Lunch),
                 ((2, ''b''), MarkAttendance ''2024-01-01'' Dinner),
                 ((3, ''c''), UnmarkAttendance ''2024-01-01'' Lunch)]" 2
               "\<lparr>attendance = [], noteMap = [], summaries = []\<rparr>" "(4, ''d'')" "Other ''export''"]
  by (simp add: Let_def recordAction_def slice0_def constructor_def maxHistorySize_def)

text \<open>
  C7. In every state reachable by \<open>recordAction\<close>, \<open>undo\<close>, \<open>redo\<close> and
  \<open>clearHistory\<close> calls the history holds at most \<open>maxHistorySize = 50\<close> entries, and
  when the entries kept by \<open>recordAction\<close> plus the new one would exceed that capacity,
  the oldest entry is dropped and the new one is appended.
\<close>

theorem history_capacity_bounded:
  "reachable w \<Longrightarrow>
     length (history (undoManager w)) \<le> maxHistorySize \<and>
     (\<forall>stamp a.
        let kept = slice0 (history (undoManager w)) (currentIndex (undoManager w) + 1) in
        maxHistorySize < length kept + 1 \<longrightarrow>
        history (recordAction stamp a (undoManager w))
          = tl kept @ [\<lparr>eaction = a, timestamp = fst stamp, eid = snd stamp\<rparr>])"
proof -
  assume "reachable w"
  then have "wellFormed (undoManager w)" by (rule reachable_wellFormed)
  then show ?thesis
    by (cases "history (undoManager w)")
       (auto simp: wellFormed_def recordAction_def slice0_def Let_def maxHistorySize_def min_def)
qed

theorem history_capacity_bounded_witness:
  "length (history (recordAll fiftyExports constructor)) \<le> maxHistorySize \<and>
   history (recordAction (1, ''y'') (MarkAttendance ''2024-01-01'' Lunch)
              (recordAll fiftyExports constructor))
     = replicate 49 \<lparr>eaction = Other ''export'', timestamp = 0, eid = ''x''\<rparr>
         @ [\<lparr>eaction = MarkAttendance ''2024-01-01'' Lunch, timestamp = 1, eid = ''y''\<rparr>]"
proof -
  have r: "reachable
             (\<lparr>appData = \<lparr>attendance = [], noteMap = [], summaries = []\<rparr>,
               undoManager = constructor\<rparr>
              \<lparr>undoManager := recordAll fiftyExports
                 (undoManager \<lparr>appData = \<lparr>attendance = [], noteMap = [], summaries = []\<rparr>,
                                undoManager = constructor\<rparr>)\<rparr>)"
    by (rule reachable_recordAll [OF reachable.fresh])
  have t: "tl (replicate 50 \<lparr>eaction = Other ''export'', timestamp = 0, eid = ''x''\<rparr>)
             = replicate 49 \<lparr>eaction = Other ''export'', timestamp = 0, eid = ''x''\<rparr>"
    by code_simp
  show ?thesis
    using history_capacity_bounded [OF r] t
    by (simp add: fiftyExports_recorded slice0_def Let_def maxHistorySize_def)
qed

text \<open>
  C10. A saved history whose \<open>currentIndex\<close> is \<open>0\<close> had an action to undo; loading it
  keeps the entries but sets \<open>currentIndex\<close> to \<open>-1\<close> (\<open>0 || -1\<close> is \<open>-1\<close>), so
  \<open>canUndo()\<close> is false after the reload.
\<close>

theorem loadHistory_loses_index_zero:
  "canUndo \<lparr>history = es, currentIndex = 0\<rparr> \<and>
   history (loadHistory (saveHistory \<lparr>history = es, currentIndex = 0\<rparr>) m) = es \<and>
   currentIndex (loadHistory (saveHistory \<lparr>history = es, currentIndex = 0\<rparr>) m) = - 1 \<and>
   \<not> canUndo (loadHistory (saveHistory \<lparr>history = es, currentIndex = 0\<rparr>) m)"
  by (simp add: canUndo_def saveHistory_def)

section \<open>Properties of the statistics calculator\<close>

lemma currentStreakLoop_run:
  assumes "\<forall>d\<in>set run. dayAttended att d" "rest = [] \<or> daySkipped att (hd rest)"
  shows "currentStreakLoop att (run @ rest) k = Inr (k + length run)"
  using assms
proof (induction run arbitrary: k)
  case Nil
  then show ?case by (cases rest) (auto simp: daySkipped_def)
next
  case (Cons d run)
  from Cons.prems(1) obtain l n where "map_of att d = Some (Meals l n)" "l \<or> n"
    by (auto simp: dayAttended_def split: option.splits attval.splits)
  then show ?case using Cons by simp
qed

lemma hasRecord_cases:
  "hasRecord att d \<Longrightarrow> dayAttended att d \<or> daySkipped att d"
  by (auto simp: hasRecord_def dayAttended_def daySkipped_def split: option.splits attval.splits)

lemma currentStreak_trailing:
  assumes "\<forall>d\<in>set dates. hasRecord att d"
  shows "calculateCurrentStreak dates att
           = Inr (length (takeWhile (dayAttended att) (rev (sort dates))))"
proof -
  let ?P = "dayAttended att"
  let ?xs = "rev (sort dates)"
  have split: "?xs = takeWhile ?P ?xs @ dropWhile ?P ?xs" by simp
  have a: "\<forall>d\<in>set (takeWhile ?P ?xs). ?P d" by (auto dest: set_takeWhileD)
  have b: "dropWhile ?P ?xs = [] \<or> daySkipped att (hd (dropWhile ?P ?xs))"
  proof (cases "dropWhile ?P ?xs = []")
    case True
    then show ?thesis by simp
  next
    case False
    then have n: "\<not> ?P (hd (dropWhile ?P ?xs))" by (rule hd_dropWhile)
    have "hd (dropWhile ?P ?xs) \<in> set (dropWhile ?P ?xs)" using False by simp
    then have "hd (dropWhile ?P ?xs) \<in> set ?xs" by (rule set_dropWhileD)
    then have "hasRecord att (hd (dropWhile ?P ?xs))" using assms by simp
    then show ?thesis using n hasRecord_cases by blast
  qed
  have "currentStreakLoop att (takeWhile ?P ?xs @ dropWhile ?P ?xs) 0
          = Inr (0 + length (takeWhile ?P ?xs))"
    using a b by (rule currentStreakLoop_run)
  then show ?thesis by (simp add: calculateCurrentStreak_def)
qed

lemma snoc_run_cases:
  assumes "ys @ [x] = p @ r @ s"
  shows "(s = [] \<and> r = []) \<or> (s = [] \<and> (\<exists>r'. r = r' @ [x] \<and> ys = p @ r'))
          \<or> (\<exists>s'. s = s' @ [x] \<and> ys = p @ r @ s')"
proof (cases s rule: rev_cases)
  case Nil
  show ?thesis
  proof (cases r rule: rev_cases)
    case Nil
    then show ?thesis using \<open>s = []\<close> by simp
  next
    case (snoc r' y)
    then show ?thesis using assms \<open>s = []\<close> by auto
  qed
next
  case (snoc s' y)
  then have "ys @ [x] = (p @ r @ s') @ [y]" using assms by simp
  then have "ys = p @ r @ s'" "x = y" by simp_all
  then show ?thesis using snoc by simp
qed

lemma suffix_run_le:
  assumes "ys = p @ r" "\<forall>d\<in>set r. P d"
  shows "length r \<le> length (takeWhile P (rev ys))"
proof -
  have "takeWhile P (rev r @ rev p) = rev r @ takeWhile P (rev p)"
    using assms(2) by (intro takeWhile_append2) simp
  then show ?thesis using assms(1) by simp
qed

lemma longestStreakLoop_inv:
  assumes "\<forall>d\<in>set xs. hasRecord att d"
    and "cur = length (takeWhile (dayAttended att) (rev ys))"
    and "\<exists>p r s. ys = p @ r @ s \<and> (\<forall>d\<in>set r. dayAttended att d) \<and> length r = mx"
    and "\<forall>p r s. ys = p @ r @ s \<and> (\<forall>d\<in>set r. dayAttended att d) \<longrightarrow> length r \<le> mx"
  shows "\<exists>L. longestStreakLoop att xs mx cur = Inr L
           \<and> (\<exists>p r s. ys @ xs = p @ r @ s \<and> (\<forall>d\<in>set r. dayAttended att d) \<and> length r = L)
           \<and> (\<forall>p r s. ys @ xs = p @ r @ s \<and> (\<forall>d\<in>set r. dayAttended att d) \<longrightarrow> length r \<le> L)"
  using assms
proof (induction xs arbitrary: ys mx cur)
  case Nil
  then show ?case by simp
next
  case (Cons x xs)
  let ?P = "dayAttended att"
  have hx: "hasRecord att x" using Cons.prems(1) by simp
  have rest: "\<forall>d\<in>set xs. hasRecord att d" using Cons.prems(1) by simp
  obtain l n where m: "map_of att x = Some (Meals l n)"
    using hx by (auto simp: hasRecord_def split: option.splits attval.splits)
  show ?case
  proof (cases "l \<or> n")
    case True
    then have px: "?P x" using m by (simp add: dayAttended_def)
    let ?cur' = "cur + 1"
    let ?mx' = "max mx (cur + 1)"
    have c': "?cur' = length (takeWhile ?P (rev (ys @ [x])))"
      using px Cons.prems(2) by simp
    have ex': "\<exists>p r s. ys @ [x] = p @ r @ s \<and> (\<forall>d\<in>set r. ?P d) \<and> length r = ?mx'"
    proof (cases "mx \<le> cur + 1")
      case True
      let ?r = "rev (takeWhile ?P (rev (ys @ [x])))"
      let ?p = "rev (dropWhile ?P (rev (ys @ [x])))"
      have "rev (ys @ [x]) = takeWhile ?P (rev (ys @ [x])) @ dropWhile ?P (rev (ys @ [x]))"
        by simp
      then have "ys @ [x] = ?p @ ?r @ []"
        by (metis append_Nil2 rev_append rev_rev_ident)
      moreover have "\<forall>d\<in>set ?r. ?P d" by (auto dest: set_takeWhileD)
      moreover have "length ?r = ?mx'" using c' True by (simp add: max_def)
      ultimately show ?thesis by blast
    next
      case False
      from Cons.prems(3) obtain p r s where "ys = p @ r @ s" "\<forall>d\<in>set r. ?P d" "length r = mx"
        by blast
      then have "ys @ [x] = p @ r @ (s @ [x])" by simp
      then show ?thesis using \<open>\<forall>d\<in>set r. ?P d\<close> \<open>length r = mx\<close> False
        by (metis max.absorb1 nat_le_linear)
    qed
    have all': "\<forall>p r s. ys @ [x] = p @ r @ s \<and> (\<forall>d\<in>set r. ?P d) \<longrightarrow> length r \<le> ?mx'"
    proof (intro allI impI)
      fix p r s
      assume a: "ys @ [x] = p @ r @ s \<and> (\<forall>d\<in>set r. ?P d)"
      from snoc_run_cases[of ys x p r s] a
      consider "r = []" | r' where "r = r' @ [x]" "ys = p @ r'" | s' where "ys = p @ r @ s'"
        by blast
      then show "length r \<le> ?mx'"
      proof cases
        case 1
        then show ?thesis by simp
      next
        case 2
        then have "length r' \<le> cur"
          using suffix_run_le[of ys p r' ?P] a Cons.prems(2) by simp
        then show ?thesis using 2 by simp
      next
        case 3
        then have "length r \<le> mx" using Cons.prems(4) a by blast
        then show ?thesis by simp
      qed
    qed
    from Cons.IH[OF rest c' ex' all'] show ?thesis using m True by simp
  next
    case False
    then have px: "\<not> ?P x" using m by (simp add: dayAttended_def)
    have c': "0 = length (takeWhile ?P (rev (ys @ [x])))" using px by simp
    have ex': "\<exists>p r s. ys @ [x] = p @ r @ s \<and> (\<forall>d\<in>set r. ?P d) \<and> length r = mx"
    proof -
      from Cons.prems(3) obtain p r s where "ys = p @ r @ s" "\<forall>d\<in>set r. ?P d" "length r = mx"
        by blast
      then have "ys @ [x] = p @ r @ (s @ [x])" by simp
      then show ?thesis using \<open>\<forall>d\<in>set r. ?P d\<close> \<open>length r = mx\<close> by blast
    qed
    have all': "\<forall>p r s. ys @ [x] = p @ r @ s \<and> (\<forall>d\<in>set r. ?P d) \<longrightarrow> length r \<le> mx"
    proof (intro allI impI)
      fix p r s
      assume a: "ys @ [x] = p @ r @ s \<and> (\<forall>d\<in>set r. ?P d)"
      from snoc_run_cases[of ys x p r s] a
      consider "r = []" | r' where "r = r' @ [x]" "ys = p @ r'" | s' where "ys = p @ r @ s'"
        by blast
      then show "length r \<le> mx"
      proof cases
        case 1
        then show ?thesis by simp
      next
        case 2
        then show ?thesis using a px by simp
      next
        case 3
        then show ?thesis using Cons.prems(4) a by blast
      qed
    qed
    from Cons.IH[OF rest c' ex' all'] show ?thesis using m False by simp
  qed
qed

lemma streaks_general:
  assumes "\<forall>d\<in>set dates. hasRecord att d"
  shows "\<exists>c L. calculateCurrentStreak dates att = Inr c
           \<and> calculateLongestStreak dates att = Inr L \<and> c \<le> L
           \<and> (\<exists>p r s. sort dates = p @ r @ s \<and> (\<forall>d\<in>set r. dayAttended att d) \<and> length r = L)
           \<and> (\<forall>p r s. sort dates = p @ r @ s \<and> (\<forall>d\<in>set r. dayAttended att d) \<longrightarrow> length r \<le> L)"
proof -
  let ?P = "dayAttended att"
  have h: "\<forall>d\<in>set (sort dates). hasRecord att d" using assms by simp
  have "\<exists>L. longestStreakLoop att (sort dates) 0 0 = Inr L
           \<and> (\<exists>p r s. [] @ sort dates = p @ r @ s \<and> (\<forall>d\<in>set r. ?P d) \<and> length r = L)
           \<and> (\<forall>p r s. [] @ sort dates = p @ r @ s \<and> (\<forall>d\<in>set r. ?P d) \<longrightarrow> length r \<le> L)"
    by (rule longestStreakLoop_inv[OF h]) simp_all
  then obtain L where L: "longestStreakLoop att (sort dates) 0 0 = Inr L"
    and ex: "\<exists>p r s. sort dates = p @ r @ s \<and> (\<forall>d\<in>set r. ?P d) \<and> length r = L"
    and all: "\<forall>p r s. sort dates = p @ r @ s \<and> (\<forall>d\<in>set r. ?P d) \<longrightarrow> length r \<le> L"
    by auto
  let ?c = "length (takeWhile ?P (rev (sort dates)))"
  have c: "calculateCurrentStreak dates att = Inr ?c" using assms by (rule currentStreak_trailing)
  let ?r = "rev (takeWhile ?P (rev (sort dates)))"
  let ?p = "rev (dropWhile ?P (rev (sort dates)))"
  have "rev (sort dates) = takeWhile ?P (rev (sort dates)) @ dropWhile ?P (rev (sort dates))"
    by simp
  then have "sort dates = ?p @ ?r @ []" by (metis append_Nil2 rev_append rev_rev_ident)
  moreover have "\<forall>d\<in>set ?r. ?P d" by (auto dest: set_takeWhileD)
  ultimately have "length ?r \<le> L" using all by blast
  then have "?c \<le> L" by simp
  then show ?thesis using c L ex all by (simp add: calculateLongestStreak_def)
qed

text \<open>
  C3 (as amended). \<open>calculateCurrentStreak\<close> returns the number of dates that follow
  the last fully skipped day in the sorted order of the dates it is given (all of them
  when no day is skipped): when the sorted dates are \<open>pre @ run\<close>, every date of \<open>run\<close>
  has a meal attended, and \<open>pre\<close> is empty or ends with a fully skipped day, the result
  is the length of \<open>run\<close>, whatever \<open>pre\<close> holds before that day. Neither today's date
  nor the adjacency of the calendar dates is looked at.
\<close>

theorem currentStreak_counts_trailing_run:
  assumes "sort dates = pre @ run" "\<forall>d\<in>set run. dayAttended att d"
    "pre = [] \<or> daySkipped att (last pre)"
  shows "calculateCurrentStreak dates att = Inr (length run)"
proof -
  have r: "rev (sort dates) = rev run @ rev pre" using assms(1) by simp
  have "rev pre = [] \<or> daySkipped att (hd (rev pre))"
    using assms(3) by (auto simp: hd_rev)
  moreover have "\<forall>d\<in>set (rev run). dayAttended att d" using assms(2) by simp
  ultimately have "currentStreakLoop att (rev run @ rev pre) 0 = Inr (0 + length (rev run))"
    by (intro currentStreakLoop_run)
  then show ?thesis by (simp add: calculateCurrentStreak_def r)
qed

theorem currentStreak_counts_trailing_run_witness:
  "calculateCurrentStreak [''2024-01-03'', ''2024-01-01'', ''2024-01-04'', ''2024-01-02'']
     [(''2024-01-01'', Meals True True), (''2024-01-02'', Meals False False),
      (''2024-01-03'', Meals True False), (''2024-01-04'', Meals False True)] = Inr 2"
proof -
  have s: "sort [''2024-01-03'', ''2024-01-01'', ''2024-01-04'', ''2024-01-02'']
             = [''2024-01-01'', ''2024-01-02''] @ [''2024-01-03'', ''2024-01-04'']"
    by code_simp
  show ?thesis
    using currentStreak_counts_trailing_run [OF s, of "[(''2024-01-01'', Meals True True), (''2024-01-02'', Meals False False),
      (''2024-01-03'', Meals True False), (''2024-01-04'', Meals False True)]"]
    by (simp add: dayAttended_def daySkipped_def)
qed

lemma january_day_strings:
  "getTodayString \<lparr>dyear = 2024, dmonth = 0, dday = 4\<rparr> = ''2024-01-04''"
  "getTodayString \<lparr>dyear = 2024, dmonth = 0, dday = 3\<rparr> = ''2024-01-03''"
  "getTodayString \<lparr>dyear = 2024, dmonth = 0, dday = 2\<rparr> = ''2024-01-02''"
  by (simp_all add: getTodayString_def monthKeyOf_def showInt_def padStart2_def showNat.simps)

lemma gap_streak:
  "calculateCurrentStreak [''2024-01-01'', ''2024-01-03'', ''2024-01-04'']
     [(''2024-01-01'', Meals True False), (''2024-01-03'', Meals True False),
      (''2024-01-04'', Meals False True)] = Inr 3"
  by code_simp

lemma gap_run:
  "calendarRun
     [(''2024-01-01'', Meals True False), (''2024-01-03'', Meals True False),
      (''2024-01-04'', Meals False True)]
     \<lparr>dyear = 2024, dmonth = 0, dday = 4\<rparr> 3 = 2"
  unfolding numeral_3_eq_3
  by (simp add: january_day_strings previousDay_def dayAttended_def)

lemma later_day_streak:
  "calculateCurrentStreak [''2024-01-03'', ''2024-01-04'', ''2024-01-05'']
     [(''2024-01-03'', Meals True False), (''2024-01-04'', Meals False True),
      (''2024-01-05'', Meals False False)] = Inr 0"
  by code_simp

lemma later_day_run:
  "calendarRun
     [(''2024-01-03'', Meals True False), (''2024-01-04'', Meals False True),
      (''2024-01-05'', Meals False False)]
     \<lparr>dyear = 2024, dmonth = 0, dday = 4\<rparr> 3 = 2"
  unfolding numeral_3_eq_3
  by (simp add: january_day_strings previousDay_def dayAttended_def)

text \<open>
  C3 as stated fails in both respects. With 1, 3 and 4 January attended and no record
  for 2 January, the run of consecutive calendar dates ending on 4 January has length
  2, and the function returns 3. With 3 and 4 January attended and a fully skipped
  record for 5 January already in the map, the run ending today, 4 January, has length
  2, and the function returns 0.
\<close>

theorem currentStreak_calendar_run_counterexample:
  "calculateCurrentStreak [''2024-01-01'', ''2024-01-03'', ''2024-01-04'']
     [(''2024-01-01'', Meals True False), (''2024-01-03'', Meals True False),
      (''2024-01-04'', Meals False True)]
   \<noteq> Inr (calendarRun
             [(''2024-01-01'', Meals True False), (''2024-01-03'', Meals True False),
              (''2024-01-04'', Meals False True)]
             \<lparr>dyear = 2024, dmonth = 0, dday = 4\<rparr> 3)
   \<and> calculateCurrentStreak [''2024-01-03'', ''2024-01-04'', ''2024-01-05'']
     [(''2024-01-03'', Meals True False), (''2024-01-04'', Meals False True),
      (''2024-01-05'', Meals False False)]
   \<noteq> Inr (calendarRun
             [(''2024-01-03'', Meals True False), (''2024-01-04'', Meals False True),
              (''2024-01-05'', Meals False False)]
             \<lparr>dyear = 2024, dmonth = 0, dday = 4\<rparr> 3)"
  by (simp add: gap_streak gap_run later_day_streak later_day_run)

lemma january_first_strings:
  "getTodayString \<lparr>dyear = 2024, dmonth = 0, dday = Suc 0\<rparr> = ''2024-01-01''"
  "getTodayString \<lparr>dyear = 2023, dmonth = 11, dday = 31\<rparr> = ''2023-12-31''"
  by (simp_all add: getTodayString_def monthKeyOf_def showInt_def padStart2_def showNat.simps)

lemma gap_longest_streak:
  "calculateLongestStreak [''2024-01-01'', ''2024-01-03'', ''2024-01-04'']
     [(''2024-01-01'', Meals True False), (''2024-01-03'', Meals True False),
      (''2024-01-04'', Meals False True)] = Inr 3"
  by code_simp

lemma gap_longest_calendar_run:
  "longestCalendarRun
     [(''2024-01-01'', Meals True False), (''2024-01-03'', Meals True False),
      (''2024-01-04'', Meals False True)]
     [\<lparr>dyear = 2024, dmonth = 0, dday = 1\<rparr>, \<lparr>dyear = 2024, dmonth = 0, dday = 3\<rparr>,
      \<lparr>dyear = 2024, dmonth = 0, dday = 4\<rparr>] = 2"
  by (simp add: longestCalendarRun_def january_day_strings january_first_strings
        previousDay_def dayAttended_def)

text \<open>
  C4 as stated fails when a run is a run of consecutive calendar dates: with 1, 3 and
  4 January attended and no record for 2 January (every day of the map holds a record,
  and the three dates are the date set of January), the longest run of consecutive
  attended calendar dates has length 2, and \<open>calculateLongestStreak\<close> returns 3.
\<close>

theorem longestStreak_calendar_run_counterexample:
  "map getTodayString
     [\<lparr>dyear = 2024, dmonth = 0, dday = 1\<rparr>, \<lparr>dyear = 2024, dmonth = 0, dday = 3\<rparr>,
      \<lparr>dyear = 2024, dmonth = 0, dday = 4\<rparr>]
     = [''2024-01-01'', ''2024-01-03'', ''2024-01-04'']
   \<and> calculateLongestStreak [''2024-01-01'', ''2024-01-03'', ''2024-01-04'']
     [(''2024-01-01'', Meals True False), (''2024-01-03'', Meals True False),
      (''2024-01-04'', Meals False True)]
   \<noteq> Inr (longestCalendarRun
             [(''2024-01-01'', Meals True False), (''2024-01-03'', Meals True False),
              (''2024-01-04'', Meals False True)]
             [\<lparr>dyear = 2024, dmonth = 0, dday = 1\<rparr>, \<lparr>dyear = 2024, dmonth = 0, dday = 3\<rparr>,
              \<lparr>dyear = 2024, dmonth = 0, dday = 4\<rparr>])"
  using gap_longest_streak gap_longest_calendar_run
  by (simp add: january_day_strings january_first_strings)

text \<open>
  C4 (as amended). For every attendance map whose days all have a record, and every
  month key: on the sorted dates of that month both streaks are returned, the longest
  streak is at least the current streak, some run of attended days (consecutive dates
  of the sorted list, each with a meal attended, whether or not they are consecutive
  calendar dates) has the length of the longest streak, and no such run is longer.
\<close>

theorem longestStreak_is_maximum_run:
  assumes "Undefined \<notin> snd ` set att"
  shows "let dates = sort (filter (\<lambda>date. startsWith date mk) (map fst att)) in
         \<exists>c L. calculateCurrentStreak dates att = Inr c
           \<and> calculateLongestStreak dates att = Inr L \<and> c \<le> L
           \<and> (\<exists>p r s. dates = p @ r @ s \<and> (\<forall>d\<in>set r. dayAttended att d) \<and> length r = L)
           \<and> (\<forall>p r s. dates = p @ r @ s \<and> (\<forall>d\<in>set r. dayAttended att d) \<longrightarrow> length r \<le> L)"
proof -
  let ?dates = "sort (filter (\<lambda>date. startsWith date mk) (map fst att))"
  have "\<forall>d\<in>set ?dates. hasRecord att d"
  proof
    fix d assume "d \<in> set ?dates"
    then have "d \<in> fst ` set att" by auto
    then obtain v where v: "map_of att d = Some v"
      by (metis domD dom_map_of_conv_image_fst)
    then have "(d, v) \<in> set att" by (rule map_of_SomeD)
    then have "v \<noteq> Undefined" using assms by force
    then show "hasRecord att d" using v by (cases v) (simp_all add: hasRecord_def)
  qed
  from streaks_general[OF this] have
    "\<exists>c L. calculateCurrentStreak ?dates att = Inr c
           \<and> calculateLongestStreak ?dates att = Inr L \<and> c \<le> L
           \<and> (\<exists>p r s. sort ?dates = p @ r @ s \<and> (\<forall>d\<in>set r. dayAttended att d) \<and> length r = L)
           \<and> (\<forall>p r s. sort ?dates = p @ r @ s \<and> (\<forall>d\<in>set r. dayAttended att d) \<longrightarrow> length r \<le> L)" .
  moreover have "sort ?dates = ?dates" by (simp add: sorted_sort_id)
  ultimately show ?thesis by (simp add: Let_def)
qed

theorem longestStreak_is_maximum_run_witness:
  "\<exists>c L. calculateCurrentStreak [''2024-01-01'', ''2024-01-02'', ''2024-01-03''] 
            [(''2024-01-01'', Meals True False), (''2024-01-02'', Meals False False),
             (''2024-01-03'', Meals True True), (''2024-02-01'', Meals True True)] = Inr c
     \<and> calculateLongestStreak [''2024-01-01'', ''2024-01-02'', ''2024-01-03'']
            [(''2024-01-01'', Meals True False), (''2024-01-02'', Meals False False),
             (''2024-01-03'', Meals True True), (''2024-02-01'', Meals True True)] = Inr L
     \<and> c \<le> L"
proof -
  have s: "sort (filter (\<lambda>date. startsWith date ''2024-01'')
             (map fst [(''2024-01-01'', Meals True False), (''2024-01-02'', Meals False False),
             (''2024-01-03'', Meals True True), (''2024-02-01'', Meals True True)]))
           = [''2024-01-01'', ''2024-01-02'', ''2024-01-03'']"
    by code_simp
  have h: "Undefined \<notin> snd ` set [(''2024-01-01'', Meals True False), (''2024-01-02'', Meals False False),
             (''2024-01-03'', Meals True True), (''2024-02-01'', Meals True True)]"
    by simp
  show ?thesis
    using longestStreak_is_maximum_run [OF h, of "''2024-01''"] unfolding Let_def s by blast
qed

subsection \<open>The January example\<close>

lemma showNat_2024: "showNat 2024 = ''2024''"
  by (simp add: showNat.simps)

lemma showNat_2023: "showNat 2023 = ''2023''"
  by (simp add: showNat.simps)

lemma showNat_1: "showNat (Suc 0) = ''1''"
  by (simp add: showNat.simps)

lemma showNat_12: "showNat 12 = ''12''"
  by (simp add: showNat.simps)

lemma january_key:
  "dyear t = 2024 \<Longrightarrow> dmonth t = 0 \<Longrightarrow> monthKeyOf t = ''2024-01''"
  by (simp add: monthKeyOf_def showInt_def padStart2_def showNat_2024 showNat_1)

lemma december_key:
  "dyear t = 2024 \<Longrightarrow> dmonth t = 0 \<Longrightarrow> dday t \<le> 31 \<Longrightarrow>
     monthKeyOf (setMonth t (int (dmonth t) - 1)) = ''2023-12''"
  by (simp add: monthKeyOf_def showInt_def padStart2_def showNat_2023 showNat_12 setMonth_def
        daysInMonth_def Let_def)


lemma jan_dates:
  "sort (filter (\<lambda>date. startsWith date ''2024-01'') (map fst january))
     = [''2024-01-01'', ''2024-01-02'', ''2024-01-03'']"
  by code_simp

lemma dec_dates: "filter (\<lambda>date. startsWith date ''2023-12'') (map fst january) = []"
  by code_simp

lemma jan_tally:
  "tallyLoop january [''2024-01-01'', ''2024-01-02'', ''2024-01-03'']
       \<lparr>monthKey = k, totalDays = n, lunchCount = 0, dinnerCount = 0,
                 bothMealsCount = 0, onlyLunchCount = 0, onlyDinnerCount = 0,
                 skippedBothCount = 0, totalMealsAttended = 0, totalPossibleMeals = 0,
                 attendancePercentage = Number0, lunchPercentage = Number0,
                 dinnerPercentage = Number0, currentStreak = 0, longestStreak = 0,
                 comparisonWithLastMonth = NotAvailable\<rparr>
   = Inr \<lparr>monthKey = k, totalDays = n, lunchCount = 2, dinnerCount = 1,
                 bothMealsCount = 1, onlyLunchCount = 1, onlyDinnerCount = 0,
                 skippedBothCount = 1, totalMealsAttended = 0, totalPossibleMeals = 0,
                 attendancePercentage = Number0, lunchPercentage = Number0,
                 dinnerPercentage = Number0, currentStreak = 0, longestStreak = 0,
                 comparisonWithLastMonth = NotAvailable\<rparr>"
  by (simp add: january_def)

lemma jan_fixed:
  "toFixed1 3 6 = ''50.0''" "toFixed1 2 3 = ''66.7''" "toFixed1 (Suc 0) 3 = ''33.3''"
  by (simp_all add: toFixed1_def showNat.simps)

lemma jan_streaks:
  "calculateCurrentStreak [''2024-01-01'', ''2024-01-02'', ''2024-01-03''] january = Inr 1"
  "calculateLongestStreak [''2024-01-01'', ''2024-01-02'', ''2024-01-03''] january = Inr 1"
  by code_simp+

text \<open>
  C5. With the viewed month in January 2024 (any day of it) and the attendance map
  \<open>january\<close>, \<open>calculateMonthlyStats\<close> returns \<open>lunchCount = 2\<close>, \<open>dinnerCount = 1\<close>,
  \<open>bothMealsCount = 1\<close>, \<open>onlyLunchCount = 1\<close>, \<open>skippedBothCount = 1\<close> and the
  attendance percentage \<open>50.0\<close>, the string that \<open>toFixed(1)\<close> makes of \<open>(3/6)*100\<close>.
\<close>

theorem january_example_stats:
  assumes "dyear t = 2024" "dmonth t = 0" "dday t \<le> 31"
  shows "calculateMonthlyStats t january
   = Inr \<lparr>monthKey = ''2024-01'', totalDays = 3, lunchCount = 2, dinnerCount = 1,
                 bothMealsCount = 1, onlyLunchCount = 1, onlyDinnerCount = 0,
                 skippedBothCount = 1, totalMealsAttended = 3, totalPossibleMeals = 6,
                 attendancePercentage = Fixed ''50.0'', lunchPercentage = Fixed ''66.7'',
                 dinnerPercentage = Fixed ''33.3'', currentStreak = 1, longestStreak = 1,
                 comparisonWithLastMonth = NotAvailable\<rparr>"
proof -
  have mk: "monthKeyOf t = ''2024-01''" using assms by (simp add: january_key)
  have cmp: "compareWithLastMonth t january st = Inr NotAvailable" for st
    unfolding compareWithLastMonth_def Let_def december_key[OF assms] dec_dates by simp
  have len: "length [''2024-01-01'', ''2024-01-02'', ''2024-01-03''] = 3" by simp
  show ?thesis
    unfolding calculateMonthlyStats_def Let_def mk jan_dates len jan_tally
    by (simp add: jan_fixed jan_streaks cmp)
qed

theorem january_example_stats_witness:
  "calculateMonthlyStats \<lparr>dyear = 2024, dmonth = 0, dday = 15\<rparr> january
   = Inr \<lparr>monthKey = ''2024-01'', totalDays = 3, lunchCount = 2, dinnerCount = 1,
                 bothMealsCount = 1, onlyLunchCount = 1, onlyDinnerCount = 0,
                 skippedBothCount = 1, totalMealsAttended = 3, totalPossibleMeals = 6,
                 attendancePercentage = Fixed ''50.0'', lunchPercentage = Fixed ''66.7'',
                 dinnerPercentage = Fixed ''33.3'', currentStreak = 1, longestStreak = 1,
                 comparisonWithLastMonth = NotAvailable\<rparr>"
  using january_example_stats [of "\<lparr>dyear = 2024, dmonth = 0, dday = 15\<rparr>"]
  by simp

section \<open>Properties of the month rollover\<close>

text \<open>
  What \<open>archivePreviousMonth\<close> leaves alone: the attendance and the notes are
  unchanged, and the summaries change at most under the one key it computes.
\<close>

lemma archivePreviousMonth_frame:
  assumes "archivePreviousMonth today d = Inr d'"
  shows "attendance d' = attendance d \<and> noteMap d' = noteMap d
         \<and> (summaries d' = summaries d
              \<or> (\<exists>sm. summaries d' =
                    AList.update (monthKeyOf (setMonth today (int (dmonth today) - 1))) sm (summaries d)))"
  using assms
  by (auto simp: archivePreviousMonth_def Let_def split: sum.splits prod.splits if_splits)

text \<open>
  Up to the 28th the key it computes is the key of the month before today's.
\<close>

lemma archive_key_until_day_28:
  assumes "dmonth today < 12" "dday today \<le> 28"
  shows "monthKeyOf (setMonth today (int (dmonth today) - 1)) = previousMonthKey today"
proof (cases "dmonth today = 0")
  case True
  then show ?thesis using assms
    by (simp add: setMonth_def previousMonthKey_def monthKeyOf_def daysInMonth_def Let_def)
next
  case False
  then obtain k where k: "dmonth today = Suc k" "k < 11"
    using assms(1) by (cases "dmonth today") auto
  have "dday today \<le> daysInMonth (dyear today) k"
    using assms(2) by (simp add: daysInMonth_def)
  then show ?thesis using k
    by (simp add: setMonth_def previousMonthKey_def monthKeyOf_def Let_def)
qed

lemma march_april_keys: "monthKeyOf (setMonth \<lparr>dyear = 2024, dmonth = 2, dday = 31\<rparr> 1) = ''2024-03''"
  "previousMonthKey \<lparr>dyear = 2024, dmonth = 2, dday = 31\<rparr> = ''2024-02''"
  "monthKeyOf \<lparr>dyear = 2024, dmonth = 2, dday = 31\<rparr> = ''2024-03''"
  "monthKeyOf (setMonth \<lparr>dyear = 2024, dmonth = 3, dday = Suc 0\<rparr> 2) = ''2024-03''"
  "monthKeyOf \<lparr>dyear = 2024, dmonth = 3, dday = Suc 0\<rparr> = ''2024-04''"
  by (simp_all add: monthKeyOf_def previousMonthKey_def setMonth_def daysInMonth_def isLeap_def
        showInt_def padStart2_def showNat.simps Let_def)

lemma march_fixed: "toFixed1 (Suc (Suc 0)) 2 = ''100.0''" "toFixed1 (Suc (Suc 0)) 4 = ''50.0''"
  by (simp_all add: toFixed1_def showNat.simps)

text \<open>
  C6 at 31 March 2024. \<open>setMonth(getMonth() - 1)\<close> on the 31st runs over into March,
  so the first start of the application in March archives March itself, under
  \<open>2024-03\<close> and not under the previous month's key \<open>2024-02\<close>; the start of
  1 April then computes the \<open>2024-03\<close> summary again from the attendance as it is by
  then. The attendance is kept in both calls.
\<close>

theorem archive_on_day_31_recomputes_month:
  "monthKeyOf (setMonth \<lparr>dyear = 2024, dmonth = 2, dday = 31\<rparr> 1) = ''2024-03''
   \<and> previousMonthKey \<lparr>dyear = 2024, dmonth = 2, dday = 31\<rparr> = ''2024-02''
   \<and> checkAndAutoReset \<lparr>dyear = 2024, dmonth = 2, dday = 31\<rparr>
     \<lparr>trackData = \<lparr>attendance = [(''2024-03-30'', Meals True True)], noteMap = [], summaries = []\<rparr>,
      lastReset = Some ''2024-02''\<rparr>
   = Inr \<lparr>trackData = \<lparr>attendance = [(''2024-03-30'', Meals True True)], noteMap = [],
                        summaries = [(''2024-03'', Summary 1 1 1 ''100.0'')]\<rparr>,
          lastReset = Some ''2024-03''\<rparr>
   \<and> checkAndAutoReset \<lparr>dyear = 2024, dmonth = 3, dday = 1\<rparr>
     \<lparr>trackData = \<lparr>attendance = [(''2024-03-30'', Meals True True), (''2024-03-31'', Meals False False)],
                    noteMap = [], summaries = [(''2024-03'', Summary 1 1 1 ''100.0'')]\<rparr>,
      lastReset = Some ''2024-03''\<rparr>
   = Inr \<lparr>trackData = \<lparr>attendance = [(''2024-03-30'', Meals True True), (''2024-03-31'', Meals False False)],
                    noteMap = [], summaries = [(''2024-03'', Summary 1 1 2 ''50.0'')]\<rparr>,
          lastReset = Some ''2024-04''\<rparr>"
  by (simp add: checkAndAutoReset_def archivePreviousMonth_def march_april_keys march_fixed
        startsWith_def Let_def)

section \<open>Properties of the notification check\<close>

lemma notifyLoop_filter:
  "notifyLoop perm att today ct ns =
     ((if perm = Granted then filter (\<lambda>n. ntime n = ct \<and> \<not> isMarked att today (mealType n)) ns else []),
      filter (\<lambda>n. ntime n = ct \<and> \<not> isMarked att today (mealType n)) ns)"
  by (induction ns) (auto simp: Let_def)

text \<open>
  C9. A check sends (to the browser and as a banner) only scheduled notifications
  whose meal is not marked for today, and a second check in the same \<open>HH:MM\<close> minute,
  whatever the attendance is by then, sends nothing and leaves the state as it is.
\<close>

theorem checkScheduledNotifications_suppression:
  "let (m1, shown1, banners1) = checkScheduledNotifications h mi now att m;
       (m2, shown2, banners2) = checkScheduledNotifications h mi now' att' m1
   in (\<forall>n \<in> set shown1 \<union> set banners1.
         n \<in> set (scheduledNotifications m) \<and> \<not> isMarked att (getTodayString now) (mealType n))
      \<and> m2 = m1 \<and> shown2 = [] \<and> banners2 = []"
  by (auto simp: checkScheduledNotifications_def notifyLoop_filter Let_def)

lemma noon_strings: "padStart2 (showNat 12) = ''12''" "padStart2 (showNat 0) = ''00''"
  by (simp_all add: padStart2_def showNat.simps)

lemma day5_string: "getTodayString \<lparr>dyear = 2024, dmonth = 0, dday = 5\<rparr> = ''2024-01-05''"
  by (simp add: getTodayString_def monthKeyOf_def showInt_def padStart2_def showNat.simps)

theorem checkScheduledNotifications_suppression_witness:
  "checkScheduledNotifications 12 0 \<lparr>dyear = 2024, dmonth = 0, dday = 5\<rparr>
      [(''2024-01-05'', Meals True False)]
      \<lparr>permission = Granted, scheduledNotifications = [lunchReminder, dinnerReminder],
       lastCheckedMinute = None\<rparr>
     = (\<lparr>permission = Granted, scheduledNotifications = [lunchReminder, dinnerReminder],
         lastCheckedMinute = Some ''12:00''\<rparr>, [dinnerReminder], [dinnerReminder])
   \<and> checkScheduledNotifications 12 0 \<lparr>dyear = 2024, dmonth = 0, dday = 5\<rparr>
      [(''2024-01-05'', Meals True False)]
      \<lparr>permission = Granted, scheduledNotifications = [lunchReminder, dinnerReminder],
         lastCheckedMinute = Some ''12:00''\<rparr>
     = (\<lparr>permission = Granted, scheduledNotifications = [lunchReminder, dinnerReminder],
         lastCheckedMinute = Some ''12:00''\<rparr>, [], [])"
  using checkScheduledNotifications_suppression [of 12 0 "\<lparr>dyear = 2024, dmonth = 0, dday = 5\<rparr>" "[(''2024-01-05'', Meals True False)]"
      "\<lparr>permission = Granted, scheduledNotifications = [lunchReminder, dinnerReminder],
       lastCheckedMinute = None\<rparr>" "\<lparr>dyear = 2024, dmonth = 0, dday = 5\<rparr>" "[(''2024-01-05'', Meals True False)]"]
  by (simp add: checkScheduledNotifications_def noon_strings day5_string isMarked_def lunchReminder_def
        dinnerReminder_def Let_def)

section \<open>Properties of the guarded write\<close>

lemma setItem_denied:
  "deny (AList.update key val (localStorage b)) = Some e \<Longrightarrow>
     setItem deny key val b = (Some e, b\<lparr>attempts := attempts b @ [(key, val)]\<rparr>)"
  by (simp add: setItem_def Let_def)

lemma setItem_result:
  "setItem deny key val b =
     (deny (AList.update key val (localStorage b)),
      (if deny (AList.update key val (localStorage b)) = None
       then b\<lparr>attempts := attempts b @ [(key, val)],
              localStorage := AList.update key val (localStorage b)\<rparr>
       else b\<lparr>attempts := attempts b @ [(key, val)]\<rparr>))"
  by (auto simp: setItem_def Let_def split: option.splits)

lemma cleanOldData_frame:
  "toasts (snd (cleanOldData deny cutoff b)) = toasts b
   \<and> messTrackLoaded (snd (cleanOldData deny cutoff b)) = messTrackLoaded b"
  by (auto simp: cleanOldData_def setItem_result Let_def split: option.splits)

lemma cleanOldData_cleaned:
  assumes "cleanOldData deny cutoff b = (cleaned, b2)" "0 < cleaned"
  shows "\<exists>att nts.
           parseItem (localStorage b) ''messtrack_attendance'' = Some att
         \<and> parseItem (localStorage b) ''messtrack_notes'' = Some nts
         \<and> map_of (localStorage b2) ''messtrack_attendance''
              = Some (Doc (filter (\<lambda>(date, v). \<not> date < cutoff) att))
         \<and> map_of (localStorage b2) ''messtrack_notes''
              = Some (Doc (filter (\<lambda>(date, v). \<not> date < cutoff) nts))
         \<and> cleaned = length (filter (\<lambda>(date, v). date < cutoff) att)
                     + length (filter (\<lambda>(date, v). date < cutoff) nts)"
proof -
  have cnt: "length xs - length (filter (\<lambda>(date, v). \<not> date < cutoff) xs)
               = length (filter (\<lambda>(date, v). date < cutoff) xs)" for xs :: "(string \<times> string) list"
    using sum_length_filter_compl[of "\<lambda>(date, v). date < cutoff" xs]
    by (simp add: case_prod_unfold)
  obtain att where pa: "parseItem (localStorage b) ''messtrack_attendance'' = Some att"
    using assms by (cases "parseItem (localStorage b) ''messtrack_attendance''")
                   (auto simp: cleanOldData_def)
  obtain nts where pn: "parseItem (localStorage b) ''messtrack_notes'' = Some nts"
    using assms pa by (cases "parseItem (localStorage b) ''messtrack_notes''")
                      (auto simp: cleanOldData_def)
  let ?att1 = "filter (\<lambda>(date, v). \<not> date < cutoff) att"
  let ?nts1 = "filter (\<lambda>(date, v). \<not> date < cutoff) nts"
  let ?n = "(length att - length ?att1) + (length nts - length ?nts1)"
  let ?c1 = "AList.update ''messtrack_attendance'' (Doc ?att1) (localStorage b)"
  let ?c2 = "AList.update ''messtrack_notes'' (Doc ?nts1) ?c1"
  have unfolded: "cleanOldData deny cutoff b =
      (if 0 < ?n
       then (case setItem deny ''messtrack_attendance'' (Doc ?att1) b of
               (Some e, b1) \<Rightarrow> (0, b1)
             | (None, b1) \<Rightarrow>
                (case setItem deny ''messtrack_notes'' (Doc ?nts1) b1 of
                   (Some e, b2) \<Rightarrow> (0, b2)
                 | (None, b2) \<Rightarrow> (?n, b2)))
       else (?n, b))"
    by (simp only: cleanOldData_def pa pn Let_def option.case)
  have pos: "0 < ?n" using assms unfolded by (auto split: if_splits)
  have d1: "deny ?c1 = None"
    using assms unfolded pos by (auto simp: setItem_result split: if_splits option.splits)
  have d2: "deny ?c2 = None"
    using assms unfolded pos d1 by (auto simp: setItem_result split: if_splits option.splits)
  have res: "cleaned = ?n" "localStorage b2 = ?c2"
    using assms unfolded pos d1 d2 by (auto simp: setItem_result)
  have "map_of (localStorage b2) ''messtrack_attendance'' = Some (Doc ?att1)"
       "map_of (localStorage b2) ''messtrack_notes'' = Some (Doc ?nts1)"
    using res(2) by (simp_all add: AList.update_conv')
  moreover have "cleaned = length (filter (\<lambda>(date, v). date < cutoff) att)
                     + length (filter (\<lambda>(date, v). date < cutoff) nts)"
    using res(1) cnt by simp
  ultimately show ?thesis using pa pn by blast
qed

text \<open>
  C8 (as amended). When the write raises a quota error, \<open>safeSetItem\<close> runs
  \<open>cleanOldData\<close> once. If that pass removed entries, the attendance and notes objects
  are stored without their entries older than the cutoff date, the write is attempted
  exactly once more, and the result is whether that attempt was accepted. If it removed
  nothing, there is no further attempt, the result is false, and the warning is shown
  when the application object exists.
\<close>

theorem safeSetItem_on_quota_error:
  assumes "deny (AList.update key val (localStorage b)) = Some e"
    and "e = QuotaExceededError \<or> e = NS_ERROR_DOM_QUOTA_REACHED"
  shows "let b1 = b\<lparr>attempts := attempts b @ [(key, val)]\<rparr>;
             (cleaned, b2) = cleanOldData deny cutoff b1;
             (res, b3) = safeSetItem deny cutoff key val b
         in (0 < cleaned \<longrightarrow>
               attempts b3 = attempts b2 @ [(key, val)]
               \<and> res = Inr (deny (AList.update key val (localStorage b2)) = None)
               \<and> (\<exists>att nts.
                     parseItem (localStorage b) ''messtrack_attendance'' = Some att
                   \<and> parseItem (localStorage b) ''messtrack_notes'' = Some nts
                   \<and> map_of (localStorage b2) ''messtrack_attendance''
                        = Some (Doc (filter (\<lambda>(date, v). \<not> date < cutoff) att))
                   \<and> map_of (localStorage b2) ''messtrack_notes''
                        = Some (Doc (filter (\<lambda>(date, v). \<not> date < cutoff) nts))
                   \<and> cleaned = length (filter (\<lambda>(date, v). date < cutoff) att)
                               + length (filter (\<lambda>(date, v). date < cutoff) nts)))
            \<and> (cleaned = 0 \<longrightarrow>
                 attempts b3 = attempts b2 \<and> res = Inr False
                 \<and> toasts b3 = toasts b @ (if messTrackLoaded b then [storageFullWarning] else []))"
proof -
  let ?b1 = "b\<lparr>attempts := attempts b @ [(key, val)]\<rparr>"
  obtain cleaned b2 where c: "cleanOldData deny cutoff ?b1 = (cleaned, b2)"
    by (cases "cleanOldData deny cutoff ?b1")
  have fr: "toasts b2 = toasts b" "messTrackLoaded b2 = messTrackLoaded b"
    using cleanOldData_frame[of deny cutoff ?b1] c by simp_all
  have s1: "setItem deny key val b = (Some e, ?b1)"
    using assms(1) by (rule setItem_denied)
  show ?thesis
  proof (cases "0 < cleaned")
    case True
    have cl: "\<exists>att nts.
           parseItem (localStorage ?b1) ''messtrack_attendance'' = Some att
         \<and> parseItem (localStorage ?b1) ''messtrack_notes'' = Some nts
         \<and> map_of (localStorage b2) ''messtrack_attendance''
              = Some (Doc (filter (\<lambda>(date, v). \<not> date < cutoff) att))
         \<and> map_of (localStorage b2) ''messtrack_notes''
              = Some (Doc (filter (\<lambda>(date, v). \<not> date < cutoff) nts))
         \<and> cleaned = length (filter (\<lambda>(date, v). date < cutoff) att)
                     + length (filter (\<lambda>(date, v). date < cutoff) nts)"
      using c True by (rule cleanOldData_cleaned)
    have "safeSetItem deny cutoff key val b =
            (case setItem deny key val b2 of
               (None, b3) \<Rightarrow> (Inr True, b3)
             | (Some retryError, b3) \<Rightarrow> (Inr False, b3))"
      using assms(2) True by (auto simp: safeSetItem_def s1 c)
    then have "safeSetItem deny cutoff key val b =
            (Inr (deny (AList.update key val (localStorage b2)) = None),
             snd (setItem deny key val b2))"
      by (auto simp: setItem_result split: option.splits)
    then show ?thesis using True c cl by (simp add: Let_def setItem_result)
  next
    case False
    then have "safeSetItem deny cutoff key val b =
            (Inr False, (if messTrackLoaded b2
                         then b2\<lparr>toasts := toasts b2 @ [storageFullWarning]\<rparr> else b2))"
      using assms(2) by (auto simp: safeSetItem_def s1 c)
    then show ?thesis using False c fr by (simp add: Let_def)
  qed
qed

text \<open>
  C8 as stated fails: with nothing older than the cutoff there is no retry; the only
  attempt is the first one.
\<close>

theorem safeSetItem_no_retry_counterexample:
  "safeSetItem (atMost 1) ''2024-11-02'' ''messtrack_settings'' (Doc [(''theme'', ''dark'')]) fullBrowser
     = (Inr False,
        fullBrowser\<lparr>attempts := [(''messtrack_settings'', Doc [(''theme'', ''dark'')])],
                    toasts := [storageFullWarning]\<rparr>)"
  by code_simp

lemma oldBrowser_write:
  "safeSetItem (atMost 3) ''2022-11-02'' ''messtrack_settings'' (Doc [(''theme'', ''dark'')]) oldBrowser
   = (Inr True, \<lparr>localStorage =
                    [(''messtrack_attendance'', Doc [(''2024-10-01'', ''{}'')]),
                     (''messtrack_notes'', Doc []),
                     (''messtrack_settings'', Doc [(''theme'', ''dark'')])],
                 attempts = [(''messtrack_settings'', Doc [(''theme'', ''dark'')]),
                             (''messtrack_attendance'', Doc [(''2024-10-01'', ''{}'')]),
                             (''messtrack_notes'', Doc []),
                             (''messtrack_settings'', Doc [(''theme'', ''dark'')])],
                 toasts = [], messTrackLoaded = True\<rparr>)"
  by code_simp

lemma oldBrowser_denied:
  "atMost 3 (AList.update ''messtrack_settings'' (Doc [(''theme'', ''dark'')]) (localStorage oldBrowser))
     = Some QuotaExceededError"
  by code_simp

theorem safeSetItem_on_quota_error_witness:
  "fst (safeSetItem (atMost 3) ''2022-11-02'' ''messtrack_settings'' (Doc [(''theme'', ''dark'')])
          oldBrowser) = Inr True
   \<and> attempts (snd (safeSetItem (atMost 3) ''2022-11-02'' ''messtrack_settings''
                        (Doc [(''theme'', ''dark'')]) oldBrowser))
       = [(''messtrack_settings'', Doc [(''theme'', ''dark'')]),
          (''messtrack_attendance'', Doc [(''2024-10-01'', ''{}'')]),
          (''messtrack_notes'', Doc []),
          (''messtrack_settings'', Doc [(''theme'', ''dark'')])]"
  using safeSetItem_on_quota_error
          [where deny = "atMost 3" and key = "''messtrack_settings''"
             and val = "Doc [(''theme'', ''dark'')]" and b = oldBrowser
             and e = QuotaExceededError and cutoff = "''2022-11-02''"]
        oldBrowser_denied oldBrowser_write
  by simp

end
